theory Spec2Isabelle
  imports
    Complex_Main
    "HOL-Library.AList"
    "HOL-Library.List_Lexorder"
    "HOL-Library.Char_ord"
    "HOL-Library.Sublist"
begin

section \<open>JavaScript values\<close>

text \<open>
  The generator (\<^verbatim>\<open>src/bin/cli.js\<close>) works on parsed JSON documents. A JavaScript number
  is a double; the finite ones are modelled by their exact rational value, next to the
  three special values. Strings are lists of 8-bit characters (the code units below 256).
  The property list of \<open>JObj\<close> is in the order \<^verbatim>\<open>Object.keys\<close> enumerates; a JavaScript object
  never holds a key twice, so the lists that stand for parsed objects have distinct keys.
  \<open>None\<close> of type \<open>json option\<close> stands for \<^verbatim>\<open>undefined\<close>, \<open>Some JNull\<close> for \<^verbatim>\<open>null\<close>.
\<close>

datatype jsnum = Finite rat | NaN | PosInf | NegInf

datatype json =
    JNull
  | JBool bool
  | JNum jsnum
  | JStr string
  | JArr "json list"
  | JObj "(string \<times> json) list"

type_synonym path = "string list"

text \<open>
  The built-in and library services the generator calls but does not implement are the
  fields of an environment: number formatting and parsing, \<^verbatim>\<open>JSON.stringify\<close>, the JSON
  reader and writer of fs-extra, \<^verbatim>\<open>mustache.render\<close>, the size of the archive that archiver
  writes, and the directory the templates live in. \<open>'b\<close> is the type of file contents.
\<close>

record 'b env =
  numStr :: "jsnum \<Rightarrow> string"
  strToNum :: "string \<Rightarrow> jsnum"
  JSON_stringify :: "json \<Rightarrow> string"
  readJson_parse :: "'b \<Rightarrow> json option"
  writeJson_text :: "json \<Rightarrow> 'b"
  mustache_render :: "'b \<Rightarrow> json \<Rightarrow> 'b option"
  archive_size :: "(path \<times> 'b option) list \<Rightarrow> nat"
  TEMPLATES_DIR :: path

text \<open>
  Every exception the generator throws, or lets through, is a value of \<open>error\<close>; a
  computation that may throw returns \<open>error + 'a\<close>, and \<open>bindE\<close> passes the first error on.
\<close>

datatype error =
    ModeConflict
  | NoFormats
  | TypeError
  | InvalidWidthHeight json
  | TemplateNotFound string
  | IOError
  | RenderError

fun bindE :: "error + 'a \<Rightarrow> ('a \<Rightarrow> error + 'c) \<Rightarrow> error + 'c" where
  "bindE (Inl e) f = Inl e"
| "bindE (Inr x) f = f x"

fun mapE :: "('a \<Rightarrow> error + 'c) \<Rightarrow> 'a list \<Rightarrow> error + 'c list" where
  "mapE f [] = Inr []"
| "mapE f (x # xs) = bindE (f x) (\<lambda>y. bindE (mapE f xs) (\<lambda>ys. Inr (y # ys)))"

fun isFinite :: "jsnum \<Rightarrow> bool" where
  "isFinite (Finite q) = True"
| "isFinite n = False"

text \<open>Truthiness (\<^verbatim>\<open>!x\<close>, \<^verbatim>\<open>x ? a : b\<close>, \<^verbatim>\<open>filter(Boolean)\<close>).\<close>

fun truthy :: "json \<Rightarrow> bool" where
  "truthy JNull = False"
| "truthy (JBool b) = b"
| "truthy (JNum n) = (n \<noteq> Finite 0 \<and> n \<noteq> NaN)"
| "truthy (JStr s) = (s \<noteq> [])"
| "truthy (JArr xs) = True"
| "truthy (JObj kvs) = True"

fun truthy_opt :: "json option \<Rightarrow> bool" where
  "truthy_opt None = False"
| "truthy_opt (Some v) = truthy v"

text \<open>
  \<^verbatim>\<open>x.k\<close> on a value that is not \<^verbatim>\<open>null\<close>: the property of an object, \<^verbatim>\<open>undefined\<close> on
  anything else (none of the keys the generator reads is a property of a primitive or of
  an array). \<^verbatim>\<open>x?.k\<close> also yields \<^verbatim>\<open>undefined\<close> on \<^verbatim>\<open>null\<close> and \<^verbatim>\<open>undefined\<close>.
\<close>

fun getp :: "json \<Rightarrow> string \<Rightarrow> json option" where
  "getp (JObj kvs) k = map_of kvs k"
| "getp v k = None"

fun getq :: "json option \<Rightarrow> string \<Rightarrow> json option" where
  "getq None k = None"
| "getq (Some v) k = getp v k"

fun joinWith :: "string \<Rightarrow> string list \<Rightarrow> string" where
  "joinWith sep [] = []"
| "joinWith sep [x] = x"
| "joinWith sep (x # y # ys) = x @ sep @ joinWith sep (y # ys)"

text \<open>
  \<^verbatim>\<open>String(x)\<close> and \<^verbatim>\<open>Number(x)\<close> convert an object through its \<^verbatim>\<open>toString\<close> method (the inherited
  \<^verbatim>\<open>valueOf\<close> returns the object itself, and an own property \<^verbatim>\<open>valueOf\<close> of a parsed
  document is not callable). A parsed object with an own property \<^verbatim>\<open>toString\<close> has no
  callable one, and the conversion throws a \<^verbatim>\<open>TypeError\<close>; an array converts its elements,
  so it throws when one of them does. \<open>stringable\<close> says that the conversion returns, and
  \<open>strText\<close> is the string it returns then: an array joins its elements with commas, \<^verbatim>\<open>null\<close>
  elements as \<^verbatim>\<open>""\<close>.
\<close>

fun stringable :: "json \<Rightarrow> bool" where
  "stringable (JObj kvs) = (map_of kvs ''toString'' = None)"
| "stringable (JArr xs) = list_all stringable xs"
| "stringable v = True"

fun strText :: "'b env \<Rightarrow> json \<Rightarrow> string" where
  "strText E (JStr s) = s"
| "strText E (JNum n) = numStr E n"
| "strText E (JBool b) = (if b then ''true'' else ''false'')"
| "strText E JNull = ''null''"
| "strText E (JArr xs) =
     joinWith '','' (map (\<lambda>x. if x = JNull then [] else strText E x) xs)"
| "strText E (JObj kvs) = ''[object Object]''"

definition jsString :: "'b env \<Rightarrow> json \<Rightarrow> error + string" where
  "jsString E v = (if stringable v then Inr (strText E v) else Inl TypeError)"

fun toNumber :: "'b env \<Rightarrow> json option \<Rightarrow> error + jsnum" where
  "toNumber E None = Inr NaN"
| "toNumber E (Some JNull) = Inr (Finite 0)"
| "toNumber E (Some (JBool b)) = Inr (Finite (if b then 1 else 0))"
| "toNumber E (Some (JNum n)) = Inr n"
| "toNumber E (Some (JStr s)) = Inr (strToNum E s)"
| "toNumber E (Some v) = bindE (jsString E v) (\<lambda>s. Inr (strToNum E s))"

text \<open>
  \<^verbatim>\<open>x * 1024\<close>: the product of a double with a power of two is exact unless it exceeds the
  largest double, \<open>maxDouble\<close>, and is \<^verbatim>\<open>Infinity\<close> then. \<^verbatim>\<open>Math.round\<close> rounds to the nearest
  integer, ties towards \<open>+\<infinity>\<close>; \<^verbatim>\<open>a <= b\<close> compares numbers.
\<close>

definition maxDouble :: rat where
  "maxDouble = (2 ^ 53 - 1) * 2 ^ 971"

fun times1024 :: "jsnum \<Rightarrow> jsnum" where
  "times1024 (Finite q) =
     (if maxDouble < q * 1024 then PosInf
      else if q * 1024 < - maxDouble then NegInf
      else Finite (q * 1024))"
| "times1024 n = n"

fun Math_round :: "jsnum \<Rightarrow> jsnum" where
  "Math_round (Finite q) = Finite (of_int \<lfloor>q + 1 / 2\<rfloor>)"
| "Math_round n = n"

fun js_le :: "jsnum \<Rightarrow> jsnum \<Rightarrow> bool" where
  "js_le NaN b = False"
| "js_le a NaN = False"
| "js_le NegInf b = True"
| "js_le a PosInf = True"
| "js_le (Finite a) (Finite b) = (a \<le> b)"
| "js_le a b = False"

subsection \<open>Characters and patterns\<close>

definition isDigit :: "char \<Rightarrow> bool" where
  "isDigit c = (c \<in> set ''0123456789'')"

text \<open>The number a string of decimal digits denotes.\<close>

definition digitsVal :: "string \<Rightarrow> nat" where
  "digitsVal s = foldl (\<lambda>a c. 10 * a + length (takeWhile (\<lambda>d. d \<noteq> c) ''0123456789'')) 0 s"

text \<open>\<^verbatim>\<open>\s\<close> and the characters \<^verbatim>\<open>trim()\<close> strips, in the range below 256.\<close>

definition isSpace :: "char \<Rightarrow> bool" where
  "isSpace c = (c \<in> set [CHR 0x09, CHR 0x0A, CHR 0x0B, CHR 0x0C, CHR 0x0D, CHR 0x20, CHR 0xA0])"

definition isWord :: "char \<Rightarrow> bool" where
  "isWord c = (c \<in> set ''abcdefghijklmnopqrstuvwxyzABCDEFGHIJKLMNOPQRSTUVWXYZ0123456789_'')"

definition lower :: "char \<Rightarrow> char" where
  "lower c =
     (case map_of (zip ''ABCDEFGHIJKLMNOPQRSTUVWXYZ'' ''abcdefghijklmnopqrstuvwxyz'') c of
        Some d \<Rightarrow> d | None \<Rightarrow> c)"

definition trim :: "string \<Rightarrow> string" where
  "trim s = rev (dropWhile isSpace (rev (dropWhile isSpace s)))"

text \<open>\<^verbatim>\<open>s.includes(t)\<close> and \<^verbatim>\<open>s.endsWith(t)\<close>.\<close>

fun str_includes :: "string \<Rightarrow> string \<Rightarrow> bool" where
  "str_includes [] t = (t = [])"
| "str_includes (c # s) t = (prefix t (c # s) \<or> str_includes s t)"

definition endsWith :: "string \<Rightarrow> string \<Rightarrow> bool" where
  "endsWith s t = suffix t s"

text \<open>\<^verbatim>\<open>s.replace(/C+/g, "_")\<close> for a character class \<open>C\<close>: every maximal run becomes one \<^verbatim>\<open>_\<close>.\<close>

fun replaceRuns :: "(char \<Rightarrow> bool) \<Rightarrow> string \<Rightarrow> string" where
  "replaceRuns C [] = []"
| "replaceRuns C [c] = (if C c then ''_'' else [c])"
| "replaceRuns C (c # d # s) =
     (if C c then (if C d then replaceRuns C (d # s) else CHR ''_'' # replaceRuns C (d # s))
      else c # replaceRuns C (d # s))"

section \<open>Size budgets\<close>

text \<open>
  \<^verbatim>\<open>parseKb\<close> (cli.js 88-92); \<^verbatim>\<open>String(sizeStr)\<close> may throw. The pattern \<^verbatim>\<open>/^(\d+(?:\.\d+)?)\s*kb$/i\<close> is matched against the
  trimmed string: \<open>matchKb\<close> returns the capture group. Digits are matched greedily; no
  other split of the string can match, since what follows a shorter run of digits is a
  digit.
\<close>

definition matchKb :: "string \<Rightarrow> string option" where
  "matchKb s =
     (let ds = takeWhile isDigit s; r1 = dropWhile isDigit s;
          fs = takeWhile isDigit (drop 1 r1);
          frac = (r1 \<noteq> [] \<and> hd r1 = CHR ''.'' \<and> fs \<noteq> []);
          m1 = (if frac then ds @ ''.'' @ fs else ds);
          r2 = (if frac then dropWhile isDigit (drop 1 r1) else r1)
      in if ds \<noteq> [] \<and> map lower (dropWhile isSpace r2) = ''kb'' then Some m1 else None)"

definition parseKb :: "'b env \<Rightarrow> json option \<Rightarrow> error + jsnum option" where
  "parseKb E sizeStr =
     (case sizeStr of
        None \<Rightarrow> Inr None
      | Some v \<Rightarrow>
          if \<not> truthy v then Inr None
          else bindE (jsString E v) (\<lambda>s.
                 case matchKb (trim s) of
                   None \<Rightarrow> Inr None
                 | Some m1 \<Rightarrow> Inr (Some (Math_round (times1024 (strToNum E m1))))))"

text \<open>
  \<^verbatim>\<open>checkZipSize\<close> (cli.js 539-557): the returned object and the line it logs. \<open>actual\<close> is
  the size \<^verbatim>\<open>fs.stat\<close> reports for the archive. \<^verbatim>\<open>!maxBytes\<close> holds for \<^verbatim>\<open>null\<close>, \<open>0\<close> and
  \<open>NaN\<close>.
\<close>

datatype sizeLog = LogSizeOk | LogOversize

record sizeReport =
  ok :: bool
  skipped :: bool
  actualBytes :: "nat option"
  reportedMax :: "jsnum option"
  logged :: "sizeLog option"

definition falsyNum :: "jsnum option \<Rightarrow> bool" where
  "falsyNum m = (m = None \<or> m = Some (Finite 0) \<or> m = Some NaN)"

definition checkZipSize :: "nat \<Rightarrow> jsnum option \<Rightarrow> sizeReport" where
  "checkZipSize actual maxBytes =
     (if falsyNum maxBytes
      then \<lparr>ok = True, skipped = True, actualBytes = None, reportedMax = None, logged = None\<rparr>
      else let isOk = js_le (Finite (of_nat actual)) (the maxBytes)
           in \<lparr>ok = isOk, skipped = False, actualBytes = Some actual,
               reportedMax = maxBytes,
               logged = Some (if isOk then LogSizeOk else LogOversize)\<rparr>)"

section \<open>Fingerprint and persisted state\<close>

lemma size_json_member: "(k, v) \<in> set kvs \<Longrightarrow> size v < size (JObj kvs)"
  by (induction kvs) auto

text \<open>
  \<^verbatim>\<open>stableStringify\<close> (cli.js 364-378). \<open>sorter\<close> rebuilds every object with its keys in
  sorted order and maps over arrays; a parsed JSON document is a tree, so the \<^verbatim>\<open>seen\<close>
  set never holds the value visited. The assignment \<^verbatim>\<open>out[k] = ...\<close> creates no property
  for the key \<^verbatim>\<open>__proto__\<close> (it calls the prototype setter of the fresh object). The keys
  are assigned in the order of \<^verbatim>\<open>sort()\<close>, but the rebuilt object enumerates its array
  indices first, in ascending numeric order, and then its other keys in the order they
  were assigned: \<open>keyOrder\<close>. An array index is the canonical numeral of a number below
  \<open>2 ^ 32 - 1\<close>.
\<close>

definition isIndexKey :: "string \<Rightarrow> bool" where
  "isIndexKey k =
     (k \<noteq> [] \<and> list_all isDigit k \<and> (k = ''0'' \<or> hd k \<noteq> CHR ''0'') \<and> digitsVal k < 4294967295)"

definition keyOrder :: "string list \<Rightarrow> string list" where
  "keyOrder ks = sort_key digitsVal (filter isIndexKey ks) @ filter (\<lambda>k. \<not> isIndexKey k) ks"

function sorter :: "json \<Rightarrow> json" where
  "sorter (JArr xs) = JArr (map sorter xs)"
| "sorter (JObj kvs) =
     JObj (map (\<lambda>k. (k, sorter (the (map_of kvs k))))
            (keyOrder (filter (\<lambda>k. k \<noteq> ''__proto__'') (sort (map fst kvs)))))"
| "sorter JNull = JNull"
| "sorter (JBool b) = JBool b"
| "sorter (JNum n) = JNum n"
| "sorter (JStr s) = JStr s"
  by pat_completeness auto
termination
proof (relation "measure size")
  show "wf (measure size)" by simp
next
  fix xs :: "json list" and x
  assume "x \<in> set xs"
  then show "(x, JArr xs) \<in> measure size"
    by (induction xs) auto
next
  fix kvs :: "(string \<times> json) list" and k
  assume "k \<in> set (keyOrder (filter (\<lambda>k. k \<noteq> ''__proto__'') (sort (map fst kvs))))"
  then have "k \<in> fst ` set kvs" by (auto simp: keyOrder_def)
  then obtain v where "map_of kvs k = Some v"
    by (metis domD dom_map_of_conv_image_fst)
  then show "(the (map_of kvs k), JObj kvs) \<in> measure size"
    using size_json_member [OF map_of_SomeD] by fastforce
qed

definition stableStringify :: "'b env \<Rightarrow> json \<Rightarrow> string" where
  "stableStringify E obj = JSON_stringify E (sorter obj)"

text \<open>
  Two documents with the same content whose objects list their keys in different orders:
  scalars are equal, arrays agree position by position, objects have the same (distinct)
  keys and agree key by key.
\<close>

inductive key_perm :: "json \<Rightarrow> json \<Rightarrow> bool" where
  kp_null: "key_perm JNull JNull"
| kp_bool: "key_perm (JBool b) (JBool b)"
| kp_num: "key_perm (JNum n) (JNum n)"
| kp_str: "key_perm (JStr s) (JStr s)"
| kp_arr: "list_all2 key_perm xs ys \<Longrightarrow> key_perm (JArr xs) (JArr ys)"
| kp_obj: "distinct (map fst kvs) \<Longrightarrow> distinct (map fst kvs') \<Longrightarrow>
           set (map fst kvs) = set (map fst kvs') \<Longrightarrow>
           (\<forall>k \<in> set (map fst kvs). key_perm (the (map_of kvs k)) (the (map_of kvs' k))) \<Longrightarrow>
           key_perm (JObj kvs) (JObj kvs')"

text \<open>
  \<^verbatim>\<open>a === b\<close> for values of two separately built documents: primitives compare by value
  (\<open>NaN\<close> differs from itself), arrays and objects are different references.
\<close>

fun strict_eq :: "json \<Rightarrow> json \<Rightarrow> bool" where
  "strict_eq JNull JNull = True"
| "strict_eq (JBool a) (JBool b) = (a = b)"
| "strict_eq (JNum a) (JNum b) = (a = b \<and> a \<noteq> NaN)"
| "strict_eq (JStr a) (JStr b) = (a = b)"
| "strict_eq a b = False"

text \<open>\<^verbatim>\<open>sameStringArray\<close> (cli.js 357-362); \<open>sameElems\<close> is its loop.\<close>

fun sameElems :: "json list \<Rightarrow> json list \<Rightarrow> bool" where
  "sameElems (x # xs) (y # ys) = (if \<not> strict_eq x y then False else sameElems xs ys)"
| "sameElems xs ys = True"

fun sameStringArray :: "json option \<Rightarrow> json option \<Rightarrow> bool" where
  "sameStringArray (Some (JArr a)) (Some (JArr b)) =
     (if length a \<noteq> length b then False else sameElems a b)"
| "sameStringArray a b = False"

datatype mode = Incremental | CreateOnly | Update

text \<open>\<^verbatim>\<open>ensureValidMode\<close> (cli.js 148-154); \<^verbatim>\<open>process.exit(1)\<close> is the error.\<close>

definition ensureValidMode :: "bool \<Rightarrow> bool \<Rightarrow> error + mode" where
  "ensureValidMode createOnly updateOnly =
     (if createOnly \<and> updateOnly then Inl ModeConflict
      else Inr (if createOnly then CreateOnly else if updateOnly then Update else Incremental))"

text \<open>\<^verbatim>\<open>shouldProcessBanner\<close> and \<^verbatim>\<open>shouldRenderBanner\<close> (cli.js 503-519).\<close>

definition shouldProcessBanner :: "mode \<Rightarrow> bool \<Rightarrow> bool" where
  "shouldProcessBanner m present =
     (if m = CreateOnly \<and> present then False
      else if m = Update \<and> \<not> present then False
      else True)"

definition shouldRenderBanner ::
  "mode \<Rightarrow> bool \<Rightarrow> json option \<Rightarrow> string list \<Rightarrow> string \<Rightarrow> bool" where
  "shouldRenderBanner m present prevState assetsFiles fmtSig =
     (let assetsChanged =
            (\<not> truthy_opt prevState \<or>
             \<not> sameStringArray (getq prevState ''assetsFiles'') (Some (JArr (map JStr assetsFiles))));
          fmtChanged =
            (\<not> truthy_opt prevState \<or> getq prevState ''fmtSig'' \<noteq> Some (JStr fmtSig))
      in case m of
           Update \<Rightarrow> True
         | CreateOnly \<Rightarrow> \<not> present
         | Incremental \<Rightarrow> \<not> present \<or> assetsChanged \<or> fmtChanged)"

section \<open>Formats, filters and paths\<close>

text \<open>\<^verbatim>\<open>a ?? d\<close> with a default that is a value.\<close>

fun orElse :: "json option \<Rightarrow> json \<Rightarrow> json" where
  "orElse None d = d"
| "orElse (Some JNull) d = d"
| "orElse (Some v) d = v"

text \<open>
  \<^verbatim>\<open>path.join\<close> on POSIX paths: a path is the list of its segments from the root; the joined
  parts are split at \<^verbatim>\<open>/\<close>, empty and \<^verbatim>\<open>.\<close> segments are dropped and \<^verbatim>\<open>..\<close> steps up.
\<close>

fun splitOn :: "char \<Rightarrow> string \<Rightarrow> string list" where
  "splitOn d [] = [[]]"
| "splitOn d (c # s) =
     (if c = d then [] # splitOn d s
      else (case splitOn d s of [] \<Rightarrow> [[c]] | w # ws \<Rightarrow> (c # w) # ws))"

definition normStep :: "path \<Rightarrow> string \<Rightarrow> path" where
  "normStep p s = (if s = [] \<or> s = ''.'' then p else if s = ''..'' then butlast p else p @ [s])"

definition path_join :: "path \<Rightarrow> string list \<Rightarrow> path" where
  "path_join base parts = foldl normStep base (concat (map (splitOn CHR ''/'') parts))"

text \<open>The string of an absolute path, as \<^verbatim>\<open>path.join\<close> returns it.\<close>

definition path_str :: "path \<Rightarrow> string" where
  "path_str p = (if p = [] then ''/'' else concat (map (\<lambda>s. CHR ''/'' # s) p))"

text \<open>
  \<^verbatim>\<open>getTemplateRoot\<close> (cli.js 23-26): the template type and its directory. The override is
  a string of the command line.
\<close>

definition getTemplateRoot ::
  "'b env \<Rightarrow> json \<Rightarrow> json \<Rightarrow> string option \<Rightarrow> error + (string \<times> path)" where
  "getTemplateRoot E fmt cfg templateOverride =
     bindE (case templateOverride of
              Some t \<Rightarrow> Inr t
            | None \<Rightarrow>
                jsString E (orElse (getq (getp fmt ''brand'') ''type'')
                             (orElse (getq (getp cfg ''brand'') ''type'') (JStr ''standard''))))
       (\<lambda>ty. Inr (ty, path_join (TEMPLATES_DIR E) [ty]))"

text \<open>\<^verbatim>\<open>normalizeSize\<close> (cli.js 94-99).\<close>

definition normalizeSize :: "'b env \<Rightarrow> json option \<Rightarrow> json option \<Rightarrow> error + string" where
  "normalizeSize E width height =
     bindE (toNumber E width) (\<lambda>w.
     bindE (toNumber E height) (\<lambda>h.
     Inr (if \<not> isFinite w \<or> \<not> isFinite h then [] else numStr E w @ ''x'' @ numStr E h)))"

text \<open>
  The filters of a run (\<^verbatim>\<open>buildFilters\<close>, cli.js 453-461): each is a set or \<^verbatim>\<open>null\<close>.
  \<^verbatim>\<open>matchesFilters\<close> (cli.js 463-476) reads \<^verbatim>\<open>fmt.width\<close> first, which throws on a
  \<^verbatim>\<open>null\<close> entry of the format list; it converts the size, the language, the motive and
  the template type before it tests any filter, so a conversion that throws aborts it
  whatever the filters are.
\<close>

record filters =
  onlySize :: "string list option"
  onlyLang :: "string list option"
  onlyMotive :: "string list option"
  onlyTemplate :: "string list option"
  onlyIndex :: "jsnum list option"

definition noFilters :: filters where
  "noFilters = \<lparr>onlySize = None, onlyLang = None, onlyMotive = None, onlyTemplate = None,
                 onlyIndex = None\<rparr>"

fun rejects :: "'a list option \<Rightarrow> 'a \<Rightarrow> bool" where
  "rejects None x = False"
| "rejects (Some S) x = (x \<notin> set S)"

definition matchesFilters ::
  "'b env \<Rightarrow> json \<Rightarrow> nat \<Rightarrow> json \<Rightarrow> string option \<Rightarrow> filters \<Rightarrow> error + bool" where
  "matchesFilters E fmt idx cfg templateOverride f =
     (if fmt = JNull then Inl TypeError
      else
        bindE (normalizeSize E (getp fmt ''width'') (getp fmt ''height'')) (\<lambda>size.
        bindE (jsString E (orElse (getp fmt ''language'') (orElse (getp fmt ''lang'') (JStr []))))
          (\<lambda>lang.
        bindE (jsString E (orElse (getp fmt ''motive'') (orElse (getp fmt ''motiveName'') (JStr []))))
          (\<lambda>motive.
        bindE (getTemplateRoot E fmt cfg templateOverride) (\<lambda>tr.
        let templateType = fst tr
        in Inr (if rejects (onlyIndex f) (Finite (of_nat idx)) then False
                else if rejects (onlySize f) size then False
                else if rejects (onlyLang f) lang then False
                else if rejects (onlyMotive f) motive then False
                else if rejects (onlyTemplate f) templateType then False
                else True))))))"

text \<open>\<^verbatim>\<open>resolveLangAndMotive\<close> and \<^verbatim>\<open>bannerFolderFor\<close> (cli.js 478-491).\<close>

definition resolveLangAndMotive :: "json \<Rightarrow> json \<times> json" where
  "resolveLangAndMotive fmt =
     (orElse (getp fmt ''language'') (orElse (getp fmt ''lang'') JNull),
      orElse (getp fmt ''motive'') (orElse (getp fmt ''motiveName'') JNull))"

definition bannerFolderFor ::
  "'b env \<Rightarrow> path \<Rightarrow> json \<Rightarrow> json \<Rightarrow> jsnum \<Rightarrow> jsnum \<Rightarrow> error + path" where
  "bannerFolderFor E outRoot langCode motiveName width height =
     bindE (if truthy langCode then bindE (jsString E langCode) (\<lambda>s. Inr [s]) else Inr []) (\<lambda>l.
     bindE (if truthy motiveName then bindE (jsString E motiveName) (\<lambda>s. Inr [s]) else Inr []) (\<lambda>m.
     Inr (path_join outRoot (l @ m @ [numStr E width @ ''x'' @ numStr E height]))))"

text \<open>\<^verbatim>\<open>makeZipName\<close> (cli.js 138-146); \<^verbatim>\<open>join\<close> converts the parts that are left to strings.\<close>

definition makeZipName ::
  "'b env \<Rightarrow> json \<Rightarrow> json \<Rightarrow> json \<Rightarrow> jsnum \<Rightarrow> jsnum \<Rightarrow> error + string" where
  "makeZipName E campaign langCode motiveName width height =
     bindE (mapE (jsString E) (filter truthy [campaign, langCode, motiveName])) (\<lambda>parts.
     Inr (replaceRuns (\<lambda>c. \<not> (isWord c \<or> c = CHR ''.'' \<or> c = CHR ''-''))
            (replaceRuns isSpace
               (joinWith ''_'' (parts @ [numStr E width @ ''x'' @ numStr E height])))
          @ ''.zip''))"

section \<open>A concrete environment for examples\<close>

text \<open>
  Examples are evaluated in \<open>demoEnv\<close>: file contents are JSON documents, a string document
  being a raw text that does not parse; the JSON writer stores the document itself;
  rendering returns the template text; an archive takes 1024 bytes per entry. Its number
  services cover the numbers of the examples: \<open>demoNumStr\<close> prints an integer in decimal and
  a number with a finite decimal expansion with its digits after the dot (\<^verbatim>\<open>String\<close> does so
  below \<open>10 ^ 21\<close>), and \<open>demoStrToNum\<close> reads an unsigned decimal numeral between white space as
  the rational it denotes, which is what \<^verbatim>\<open>Number\<close> returns when that rational is a double;
  an empty or blank string is \<open>0\<close>, and any other string, a sign or an exponent included, is
  \<open>NaN\<close> here.
\<close>

definition digitChar :: "nat \<Rightarrow> char" where
  "digitChar n = ''0123456789'' ! n"

function natStr :: "nat \<Rightarrow> string" where
  "natStr n = (if n < 10 then [digitChar n] else natStr (n div 10) @ [digitChar (n mod 10)])"
  by pat_completeness auto
termination
  by (relation "measure id") auto

declare natStr.simps [simp del]

fun fracDigits :: "nat \<Rightarrow> rat \<Rightarrow> string" where
  "fracDigits 0 r = []"
| "fracDigits (Suc k) r =
     (if r = 0 then []
      else digitChar (nat \<lfloor>10 * r\<rfloor>) # fracDigits k (10 * r - of_int \<lfloor>10 * r\<rfloor>))"

fun demoNumStr :: "jsnum \<Rightarrow> string" where
  "demoNumStr (Finite q) =
     (if q < 0 then ''-'' else []) @ natStr (nat \<lfloor>\<bar>q\<bar>\<rfloor>) @
     (if \<bar>q\<bar> = of_int \<lfloor>\<bar>q\<bar>\<rfloor> then []
      else CHR ''.'' # fracDigits 20 (\<bar>q\<bar> - of_int \<lfloor>\<bar>q\<bar>\<rfloor>))"
| "demoNumStr NaN = ''NaN''"
| "demoNumStr PosInf = ''Infinity''"
| "demoNumStr NegInf = ''-Infinity''"

definition demoStrToNum :: "string \<Rightarrow> jsnum" where
  "demoStrToNum s =
     (let t = trim s; ds = takeWhile isDigit t; r = dropWhile isDigit t
      in if t = [] then Finite 0
         else if ds = [] then NaN
         else if r = [] then Finite (of_nat (digitsVal ds))
         else if hd r = CHR ''.'' \<and> tl r \<noteq> [] \<and> list_all isDigit (tl r)
              then Finite (of_nat (digitsVal ds) + of_nat (digitsVal (tl r)) / 10 ^ length (tl r))
              else NaN)"

fun demoStringify :: "json \<Rightarrow> string" where
  "demoStringify JNull = ''null''"
| "demoStringify (JBool b) = (if b then ''true'' else ''false'')"
| "demoStringify (JNum n) = demoNumStr n"
| "demoStringify (JStr s) = ''\"'' @ s @ ''\"''"
| "demoStringify (JArr xs) = ''['' @ joinWith '','' (map demoStringify xs) @ '']''"
| "demoStringify (JObj kvs) =
     ''{'' @ joinWith '','' (map (\<lambda>kv. ''\"'' @ fst kv @ ''\":'' @ demoStringify (snd kv)) kvs) @ ''}''"

definition demoParse :: "json \<Rightarrow> json option" where
  "demoParse c = (case c of JStr s \<Rightarrow> None | v \<Rightarrow> Some v)"

definition demoEnv :: "json env" where
  "demoEnv =
     \<lparr>numStr = demoNumStr, strToNum = demoStrToNum, JSON_stringify = demoStringify,
      readJson_parse = demoParse, writeJson_text = (\<lambda>v. v),
      mustache_render = (\<lambda>raw data. Some raw),
      archive_size = (\<lambda>es. 1024 * length es),
      TEMPLATES_DIR = [''app'', ''templates'']\<rparr>"

definition exampleFmt :: json where
  "exampleFmt =
     JObj [(''width'', JNum (Finite 300)), (''height'', JNum (Finite 250)),
           (''language'', JStr ''en''), (''size'', JStr ''40kb''),
           (''brand'', JObj [(''type'', JStr ''standard''), (''tags'', JArr [JStr ''b'', JStr ''a''])])]"

definition exampleFmtPermuted :: json where
  "exampleFmtPermuted =
     JObj [(''brand'', JObj [(''tags'', JArr [JStr ''b'', JStr ''a'']), (''type'', JStr ''standard'')]),
           (''size'', JStr ''40kb''), (''language'', JStr ''en''),
           (''height'', JNum (Finite 250)), (''width'', JNum (Finite 300))]"

text \<open>
  The pattern \<^verbatim>\<open><number>kb\<close> in words: \<open>m\<close> is a non-empty run of digits, optionally
  followed by a dot and a non-empty run of digits; after \<open>m\<close> come any number of white-space
  characters and the two letters \<^verbatim>\<open>kb\<close> in either case; nothing else.
\<close>

definition kb_pattern :: "string \<Rightarrow> string \<Rightarrow> bool" where
  "kb_pattern s m =
     (\<exists>ds fr ws u. s = m @ ws @ u \<and> m = ds @ fr \<and> ds \<noteq> [] \<and> list_all isDigit ds
        \<and> (fr = [] \<or> (\<exists>fs. fr = CHR ''.'' # fs \<and> fs \<noteq> [] \<and> list_all isDigit fs))
        \<and> list_all isSpace ws \<and> map lower u = ''kb'')"

text \<open>
  A format whose language is an object with an own property \<^verbatim>\<open>toString\<close>, and a size field of
  that kind: \<^verbatim>\<open>{"width": 300, "height": 250, "language": {"toString": 1}}\<close>.
\<close>

definition opaqueFmt :: json where
  "opaqueFmt =
     JObj [(''width'', JNum (Finite 300)), (''height'', JNum (Finite 250)),
           (''language'', JObj [(''toString'', JNum (Finite 1))])]"

definition opaqueSize :: json where
  "opaqueSize = JObj [(''toString'', JNum (Finite 1))]"

definition exampleFilters :: filters where
  "exampleFilters = noFilters\<lparr>onlySize := Some [''300x250'', ''728x90''], onlyLang := Some [''en'']\<rparr>"

section \<open>File system\<close>

text \<open>
  A directory tree: a file with its content, or a directory with its entries in the order
  \<^verbatim>\<open>readdir\<close> lists them (names are distinct). The output tree is a value of this type
  rooted at \<^verbatim>\<open>/\<close>; the operations are those of fs-extra that the generator calls. Every
  failing operation of fs-extra is the error \<open>IOError\<close>.
\<close>

datatype 'b node = File 'b | Dir "(string \<times> 'b node) list"

fun lookup :: "'b node \<Rightarrow> path \<Rightarrow> 'b node option" where
  "lookup n [] = Some n"
| "lookup (File c) (s # p) = None"
| "lookup (Dir es) (s # p) = (case map_of es s of None \<Rightarrow> None | Some n \<Rightarrow> lookup n p)"

definition pathExists :: "'b node \<Rightarrow> path \<Rightarrow> bool" where
  "pathExists t p = (lookup t p \<noteq> None)"

text \<open>\<^verbatim>\<open>fs.ensureDir\<close>: creates the missing directories of a path; fails on a file in the way.\<close>

fun ensureDir :: "path \<Rightarrow> 'b node \<Rightarrow> error + 'b node" where
  "ensureDir p (File c) = Inl IOError"
| "ensureDir [] (Dir es) = Inr (Dir es)"
| "ensureDir (s # p) (Dir es) =
     (case ensureDir p (case map_of es s of None \<Rightarrow> Dir [] | Some n \<Rightarrow> n) of
        Inl e \<Rightarrow> Inl e
      | Inr n' \<Rightarrow> Inr (Dir (AList.update s n' es)))"

text \<open>The tree with the node at an existing path replaced.\<close>

fun putAt :: "path \<Rightarrow> 'b node \<Rightarrow> 'b node \<Rightarrow> 'b node" where
  "putAt [] n t = n"
| "putAt (s # p) n (File c) = File c"
| "putAt (s # p) n (Dir es) =
     (case map_of es s of
        None \<Rightarrow> Dir es
      | Some c \<Rightarrow> Dir (AList.update s (putAt p n c) es))"

subsection \<open>Template instantiation\<close>

text \<open>
  \<^verbatim>\<open>ensureTemplateOnCreate\<close> (cli.js 493-501) calls \<^verbatim>\<open>fs.copy\<close> with \<^verbatim>\<open>overwrite: false\<close>,
  \<^verbatim>\<open>errorOnExist: false\<close> and a filter on the source path. \<open>copyNode\<close> copies one source
  node onto what the destination holds (\<open>None\<close> when it does not exist): an existing file
  stays as it is, a directory is created when missing and its items are copied one by one
  when the filter accepts their source path; a file over a directory, or a directory over
  a file, is an error of fs-extra.
\<close>

definition copyFilter :: "path \<Rightarrow> bool" where
  "copyFilter src = (\<not> str_includes (path_str src) ''/assets/'')"

fun copyNode :: "path \<Rightarrow> 'b node \<Rightarrow> 'b node option \<Rightarrow> error + 'b node"
and copyItems ::
  "path \<Rightarrow> (string \<times> 'b node) list \<Rightarrow> (string \<times> 'b node) list \<Rightarrow> error + (string \<times> 'b node) list"
where
  "copyNode src (File c) dest =
     (case dest of
        None \<Rightarrow> Inr (File c)
      | Some (File d) \<Rightarrow> Inr (File d)
      | Some (Dir des) \<Rightarrow> Inl IOError)"
| "copyNode src (Dir ses) dest =
     (case dest of
        None \<Rightarrow> bindE (copyItems src ses []) (\<lambda>des'. Inr (Dir des'))
      | Some (File d) \<Rightarrow> Inl IOError
      | Some (Dir des) \<Rightarrow> bindE (copyItems src ses des) (\<lambda>des'. Inr (Dir des')))"
| "copyItems src [] des = Inr des"
| "copyItems src (item # rest) des =
     (if \<not> copyFilter (src @ [fst item]) then copyItems src rest des
      else case copyNode (src @ [fst item]) (snd item) (map_of des (fst item)) of
             Inl e \<Rightarrow> Inl e
           | Inr n' \<Rightarrow> copyItems src rest (AList.update (fst item) n' des))"

definition ensureTemplateOnCreate ::
  "path \<Rightarrow> 'b node \<Rightarrow> (string \<times> 'b node) list \<Rightarrow> bool \<Rightarrow> error + (string \<times> 'b node) list" where
  "ensureTemplateOnCreate templateRoot tn es present =
     (if present then Inr es
      else case tn of
             File c \<Rightarrow> Inl IOError
           | Dir ses \<Rightarrow> if \<not> copyFilter templateRoot then Inr es else copyItems templateRoot ses es)"

subsection \<open>Assets and persisted state\<close>

definition ensureAssetsDir :: "(string \<times> 'b node) list \<Rightarrow> error + (string \<times> 'b node) list" where
  "ensureAssetsDir es =
     (case map_of es ''assets'' of
        None \<Rightarrow> Inr (es @ [(''assets'', Dir [])])
      | Some (Dir as) \<Rightarrow> Inr es
      | Some (File c) \<Rightarrow> Inl IOError)"

text \<open>
  \<^verbatim>\<open>readAssets\<close> (cli.js 328-338): the names in \<^verbatim>\<open>assets/\<close> that match
  \<^verbatim>\<open>/\.(png|jpe?g|gif|webp|svg)$/i\<close> and not \<^verbatim>\<open>/@2x\./i\<close>, sorted.
\<close>

definition isAssetFile :: "string \<Rightarrow> bool" where
  "isAssetFile f =
     (list_ex (endsWith (map lower f)) [''.png'', ''.jpg'', ''.jpeg'', ''.gif'', ''.webp'', ''.svg'']
      \<and> \<not> str_includes (map lower f) ''@2x.'')"

definition readAssets :: "(string \<times> 'b node) list \<Rightarrow> error + string list" where
  "readAssets es =
     (case map_of es ''assets'' of
        None \<Rightarrow> Inr []
      | Some (File c) \<Rightarrow> Inl IOError
      | Some (Dir as) \<Rightarrow> Inr (sort (filter isAssetFile (map fst as))))"

text \<open>\<^verbatim>\<open>path.parse(file).name\<close>: the name without its last extension.\<close>

definition stem :: "string \<Rightarrow> string" where
  "stem f =
     (let ext = rev (takeWhile (\<lambda>c. c \<noteq> CHR ''.'') (rev f))
      in if length ext = length f \<or> length ext + 1 = length f then f
         else take (length f - length ext - 1) f)"

text \<open>
  \<^verbatim>\<open>readGenState\<close> and \<^verbatim>\<open>writeGenState\<close> (cli.js 342-355). Reading a state file that is
  missing, is a directory or does not parse gives \<^verbatim>\<open>null\<close> (\<open>None\<close>); a file holding the
  document \<^verbatim>\<open>null\<close> gives \<open>Some JNull\<close>.
\<close>

definition readGenState :: "'b env \<Rightarrow> (string \<times> 'b node) list \<Rightarrow> json option" where
  "readGenState E es =
     (case map_of es ''.gen-state.json'' of
        None \<Rightarrow> None
      | Some (Dir sub) \<Rightarrow> None
      | Some (File c) \<Rightarrow> readJson_parse E c)"

definition writeGenState ::
  "'b env \<Rightarrow> (string \<times> 'b node) list \<Rightarrow> json \<Rightarrow> error + (string \<times> 'b node) list" where
  "writeGenState E es st =
     (case map_of es ''.gen-state.json'' of
        Some (Dir sub) \<Rightarrow> Inl IOError
      | _ \<Rightarrow> Inr (AList.update ''.gen-state.json'' (File (writeJson_text E st)) es))"

definition genState :: "string list \<Rightarrow> string \<Rightarrow> string \<Rightarrow> string \<Rightarrow> json" where
  "genState assetsFiles fmtSig templateType updatedAt =
     JObj [(''assetsFiles'', JArr (map JStr assetsFiles)), (''fmtSig'', JStr fmtSig),
           (''templateType'', JStr templateType), (''updatedAt'', JStr updatedAt)]"

subsection \<open>Rendering\<close>

text \<open>
  \<^verbatim>\<open>renderFromMustacheFiles\<close> (cli.js 382-402) with \<^verbatim>\<open>overwrite: true\<close>. The first list is
  the listing read when the directory is entered, the second the directory as it is now.
  A subdirectory is rendered in place; a file whose name ends in \<^verbatim>\<open>.mustache\<close> is read as
  it is now, rendered, and written under the name without the suffix. Writing to an empty
  name or over a directory is an error, as is a template mustache cannot render.
\<close>

fun renderLoop ::
  "'b env \<Rightarrow> json \<Rightarrow> (string \<times> 'b node) list \<Rightarrow> (string \<times> 'b node) list
     \<Rightarrow> error + (string \<times> 'b node) list" where
  "renderLoop E d [] cur = Inr cur"
| "renderLoop E d ((name, Dir sub) # rest) cur =
     (case renderLoop E d sub sub of
        Inl e \<Rightarrow> Inl e
      | Inr sub' \<Rightarrow> renderLoop E d rest (AList.update name (Dir sub') cur))"
| "renderLoop E d ((name, File c0) # rest) cur =
     (if \<not> endsWith name ''.mustache'' then renderLoop E d rest cur
      else case map_of cur name of
             Some (File raw) \<Rightarrow>
               (case mustache_render E raw d of
                  None \<Rightarrow> Inl RenderError
                | Some out \<Rightarrow>
                    let outName = take (length name - 9) name
                    in if outName = [] then Inl IOError
                       else (case map_of cur outName of
                               Some (Dir sub) \<Rightarrow> Inl IOError
                             | _ \<Rightarrow> renderLoop E d rest (AList.update outName (File out) cur)))
           | _ \<Rightarrow> Inl IOError)"

definition renderFromMustacheFiles ::
  "'b env \<Rightarrow> json \<Rightarrow> (string \<times> 'b node) list \<Rightarrow> error + (string \<times> 'b node) list" where
  "renderFromMustacheFiles E d es = renderLoop E d es es"

subsection \<open>Packaging\<close>

text \<open>
  \<^verbatim>\<open>zipFolder\<close> (cli.js 406-426) archives what the glob \<^verbatim>\<open>**/*\<close> (with \<^verbatim>\<open>dot: true\<close>)
  matches under the directory, files and directories alike, except the paths that match
  one of the ignore patterns. \<open>walk\<close> lists every path below a directory, a file with its
  content. A pattern \<^verbatim>\<open>**/X\<close> matches a path whose last segment matches \<open>X\<close>, where \<^verbatim>\<open>*\<close>
  stands for any run of characters.
\<close>

fun walk :: "path \<Rightarrow> (string \<times> 'b node) list \<Rightarrow> (path \<times> 'b option) list" where
  "walk pre [] = []"
| "walk pre ((name, File c) # rest) = (pre @ [name], Some c) # walk pre rest"
| "walk pre ((name, Dir sub) # rest) =
     (pre @ [name], None) # walk (pre @ [name]) sub @ walk pre rest"

fun globSeg :: "string \<Rightarrow> string \<Rightarrow> bool" where
  "globSeg [] s = (s = [])"
| "globSeg (p # ps) [] = (p = CHR ''*'' \<and> globSeg ps [])"
| "globSeg (p # ps) (c # s) =
     (if p = CHR ''*'' then globSeg ps (c # s) \<or> globSeg (p # ps) s
      else p = c \<and> globSeg ps s)"

definition ignorePatterns :: "string list" where
  "ignorePatterns = [''**/*.mustache'', ''**/.DS_Store'', ''**/Thumbs.db'', ''**/.gen-state.json'']"

definition ignored :: "path \<Rightarrow> bool" where
  "ignored rel = (rel \<noteq> [] \<and> list_ex (\<lambda>pat. globSeg (drop 3 pat) (last rel)) ignorePatterns)"

definition zipFolder :: "(string \<times> 'b node) list \<Rightarrow> (path \<times> 'b option) list" where
  "zipFolder es = filter (\<lambda>e. \<not> ignored (fst e)) (walk [] es)"

text \<open>
  The older entry point of the repository (the unnamed source file, lines 373-387) packs
  the whole directory with \<^verbatim>\<open>archive.directory(srcDir, false)\<close>: no path is left out.
\<close>

definition zipFolder_legacy :: "(string \<times> 'b node) list \<Rightarrow> (path \<times> 'b option) list" where
  "zipFolder_legacy es = walk [] es"

section \<open>The reconciliation engine\<close>

text \<open>
  The state of a run: the output tree, the archives written (by file name; the archive
  directory \<^verbatim>\<open>output/zip\<close> lies outside the output tree) and the size lines logged. The
  template directories are read-only input: \<open>templateAt\<close> gives the tree at a path, if any.
\<close>

record 'b world =
  fs :: "'b node"
  zips :: "(string \<times> (path \<times> 'b option) list) list"
  sizeLogs :: "(string \<times> sizeLog) list"

record counts =
  processed :: nat
  created :: nat
  updated :: nat
  skippedCount :: nat
  filteredOut :: nat

definition noCounts :: counts where
  "noCounts = \<lparr>processed = 0, created = 0, updated = 0, skippedCount = 0, filteredOut = 0\<rparr>"

record 'b runArgs =
  cwd :: path
  outDirOverride :: "string option"
  campaignOverride :: "string option"
  clicktagOverride :: "string option"
  shouldZip :: bool
  templateOverride :: "string option"
  runMode :: mode
  runFilters :: filters
  clock :: "nat \<Rightarrow> string"
  templateAt :: "path \<Rightarrow> 'b node option"

text \<open>\<^verbatim>\<open>path.resolve\<close>: like \<^verbatim>\<open>path.join\<close>, but a part that starts at the root replaces what precedes.\<close>

definition path_resolve :: "path \<Rightarrow> string list \<Rightarrow> path" where
  "path_resolve base parts =
     foldl (\<lambda>p part. if part \<noteq> [] \<and> hd part = CHR ''/'' then path_join [] [part]
                       else path_join p [part]) base parts"

text \<open>\<^verbatim>\<open>readFormatsFromCfg\<close> (cli.js 172-174), for a configuration that is not \<^verbatim>\<open>null\<close>.\<close>

definition readFormatsFromCfg :: "json \<Rightarrow> json list" where
  "readFormatsFromCfg cfg =
     (case cfg of
        JArr xs \<Rightarrow> xs
      | _ \<Rightarrow> (case getp cfg ''formats'' of Some (JArr xs) \<Rightarrow> xs | _ \<Rightarrow> []))"

text \<open>The variables handed to \<^verbatim>\<open>mustache.render\<close> (cli.js 693-710).\<close>

definition renderData ::
  "'b env \<Rightarrow> 'b runArgs \<Rightarrow> json \<Rightarrow> json \<Rightarrow> json \<Rightarrow> json \<Rightarrow> json \<Rightarrow> jsnum \<Rightarrow> jsnum
     \<Rightarrow> jsnum option \<Rightarrow> string list \<Rightarrow> string \<Rightarrow> json" where
  "renderData E A cfg fmt campaign langCode motiveName width height maxBytes assetsFiles templateType =
     JObj [(''CAMPAIGN'', campaign),
           (''LANGUAGE'', orElse (Some langCode) (JStr [])),
           (''MOTIVE'', orElse (Some motiveName) (JStr [])),
           (''WIDTH'', JNum width),
           (''HEIGHT'', JNum height),
           (''SIZE_KB'', orElse (getp fmt ''size'') (JStr [])),
           (''MAX_BYTES'', (case maxBytes of None \<Rightarrow> JStr [] | Some n \<Rightarrow> JNum n)),
           (''ADSERVER_TYPE'', orElse (getq (getp fmt ''adserver'') ''type'') (JStr ''standard'')),
           (''CLICKTAG'',
              (case clicktagOverride A of
                 Some c \<Rightarrow> JStr c
               | None \<Rightarrow> orElse (getp cfg ''clicktag'')
                           (orElse (getp fmt ''clicktag'') (JStr ''https://example.com'')))),
           (''ASSETS'', JArr (map (\<lambda>f. JObj [(''id'', JStr (stem f)), (''file'', JStr f)]) assetsFiles)),
           (''FORMAT_JSON'', JStr (JSON_stringify E fmt)),
           (''TEMPLATE_TYPE'', JStr templateType)]"

text \<open>The packaging step of one format (cli.js 719-727): archive, then size check.\<close>

definition zipStep ::
  "'b env \<Rightarrow> string \<Rightarrow> jsnum option \<Rightarrow> (string \<times> 'b node) list \<Rightarrow> 'b world \<Rightarrow> 'b world" where
  "zipStep E zipName maxBytes es w =
     (let entries = zipFolder es;
          report = checkZipSize (archive_size E entries) maxBytes
      in w\<lparr>zips := AList.update zipName entries (zips w),
           sizeLogs := sizeLogs w @ (case logged report of None \<Rightarrow> [] | Some l \<Rightarrow> [(zipName, l)])\<rparr>)"

text \<open>
  The body of the loop of \<^verbatim>\<open>generateFromFormatsJson\<close> (cli.js 634-733) for the format
  \<open>fmt\<close> at index \<open>idx\<close>. Everything between \<^verbatim>\<open>ensureDir(bannerFolder)\<close> and the end of the
  body reads and writes below the banner folder only, so these steps are functions of the
  folder's entries \<open>es\<close>, written back with \<open>putAt\<close>. An error aborts the run.
\<close>

definition processFormat ::
  "'b env \<Rightarrow> 'b runArgs \<Rightarrow> json \<Rightarrow> json \<Rightarrow> path \<Rightarrow> nat \<Rightarrow> json \<Rightarrow> 'b world \<times> counts
     \<Rightarrow> error + ('b world \<times> counts)" where
  "processFormat E A cfg campaign outRoot idx fmt wc =
     (let w = fst wc; n = snd wc in
      bindE (matchesFilters E fmt idx cfg (templateOverride A) (runFilters A)) (\<lambda>matches.
      if \<not> matches then Inr (w, n\<lparr>filteredOut := filteredOut n + 1\<rparr>)
      else
        bindE (toNumber E (getp fmt ''width'')) (\<lambda>width.
        bindE (toNumber E (getp fmt ''height'')) (\<lambda>height.
        if \<not> isFinite width \<or> \<not> isFinite height then Inl (InvalidWidthHeight fmt)
        else
          let langCode = fst (resolveLangAndMotive fmt);
              motiveName = snd (resolveLangAndMotive fmt)
          in bindE (bannerFolderFor E outRoot langCode motiveName width height) (\<lambda>bannerFolder.
             let present = pathExists (fs w) (bannerFolder @ [''index.html''])
             in if \<not> shouldProcessBanner (runMode A) present
                then Inr (w, n\<lparr>skippedCount := skippedCount n + 1\<rparr>)
                else
                  bindE (getTemplateRoot E fmt cfg (templateOverride A)) (\<lambda>tr.
                  let templateType = fst tr; templateRoot = snd tr
                  in case templateAt A templateRoot of
                       None \<Rightarrow> Inl (TemplateNotFound templateType)
                     | Some tn \<Rightarrow>
                         bindE (ensureDir bannerFolder (fs w)) (\<lambda>fs1.
                         case lookup fs1 bannerFolder of
                           Some (Dir es) \<Rightarrow>
                             bindE (ensureTemplateOnCreate templateRoot tn es present) (\<lambda>es1.
                             bindE (ensureAssetsDir es1) (\<lambda>es2.
                             bindE (readAssets es2) (\<lambda>assetsFiles.
                             let prevState = readGenState E es2;
                                 fmtSig = stableStringify E fmt
                             in if \<not> shouldRenderBanner (runMode A) present prevState assetsFiles fmtSig
                                then Inr (w\<lparr>fs := putAt bannerFolder (Dir es2) fs1\<rparr>,
                                          n\<lparr>skippedCount := skippedCount n + 1\<rparr>)
                                else
                                  bindE (parseKb E (getp fmt ''size'')) (\<lambda>maxBytes.
                                  let d = renderData E A cfg fmt campaign langCode motiveName width
                                            height maxBytes assetsFiles templateType
                                  in bindE (renderFromMustacheFiles E d es2) (\<lambda>es3.
                                     bindE (writeGenState E es3
                                              (genState assetsFiles fmtSig templateType (clock A idx)))
                                       (\<lambda>es4.
                                     let w1 = w\<lparr>fs := putAt bannerFolder (Dir es4) fs1\<rparr>
                                     in bindE (if shouldZip A
                                               then bindE (makeZipName E campaign langCode motiveName
                                                             width height)
                                                      (\<lambda>zipName. Inr (zipStep E zipName maxBytes es4 w1))
                                               else Inr w1) (\<lambda>w2.
                                        Inr (w2, n\<lparr>processed := processed n + 1,
                                                       created := created n + (if present then 0 else 1),
                                                       updated := updated n + (if present then 1 else 0)\<rparr>))))))))
                         | _ \<Rightarrow> Inl IOError)))))))"

text \<open>
  The loop: formats in configuration order, stopping at the first error. The result is
  the error, if any, with the state and the counts reached when the run ended; the writes
  of the format that failed are not part of it.
\<close>

fun loopFormats ::
  "'b env \<Rightarrow> 'b runArgs \<Rightarrow> json \<Rightarrow> json \<Rightarrow> path \<Rightarrow> nat \<Rightarrow> json list \<Rightarrow> 'b world \<times> counts
     \<Rightarrow> error option \<times> 'b world \<times> counts" where
  "loopFormats E A cfg campaign outRoot idx [] wc = (None, wc)"
| "loopFormats E A cfg campaign outRoot idx (fmt # rest) wc =
     (case processFormat E A cfg campaign outRoot idx fmt wc of
        Inl e \<Rightarrow> (Some e, wc)
      | Inr wc' \<Rightarrow> loopFormats E A cfg campaign outRoot (Suc idx) rest wc')"

text \<open>
  \<^verbatim>\<open>generateFromFormatsJson\<close> (cli.js 604-736) on the parsed configuration. Reading
  \<^verbatim>\<open>cfg.formats\<close> of \<^verbatim>\<open>null\<close> throws, as does \<^verbatim>\<open>path.resolve\<close> on a campaign name that is
  not a string.
\<close>

definition campaignOf :: "'b runArgs \<Rightarrow> json \<Rightarrow> json" where
  "campaignOf A cfg =
     (case campaignOverride A of
        Some c \<Rightarrow> JStr c
      | None \<Rightarrow> orElse (getp cfg ''campaign'') (JStr ''my-campaign''))"

definition outRootOf :: "'b runArgs \<Rightarrow> string \<Rightarrow> path" where
  "outRootOf A campaign =
     path_resolve (cwd A) [(case outDirOverride A of Some d \<Rightarrow> d | None \<Rightarrow> ''./src''), campaign]"

definition generateFromFormatsJson ::
  "'b env \<Rightarrow> 'b runArgs \<Rightarrow> json \<Rightarrow> 'b world \<Rightarrow> error option \<times> 'b world \<times> counts" where
  "generateFromFormatsJson E A cfg w =
     (if cfg = JNull then (Some TypeError, w, noCounts)
      else if readFormatsFromCfg cfg = [] then (Some NoFormats, w, noCounts)
      else case campaignOf A cfg of
             JStr c \<Rightarrow>
               loopFormats E A cfg (JStr c) (outRootOf A c) 0 (readFormatsFromCfg cfg) (w, noCounts)
           | _ \<Rightarrow> (Some TypeError, w, noCounts))"

subsection \<open>An example run\<close>

definition demoTemplate :: "json node" where
  "demoTemplate =
     Dir [(''index.html.mustache'', File (JStr ''<html>{{WIDTH}}x{{HEIGHT}}</html>'')),
          (''main.js'', File (JStr ''tl.play();'')),
          (''assets'', Dir [(''default.png'', File (JStr ''PNG''))])]"

definition demoArgs :: "json runArgs" where
  "demoArgs =
     \<lparr>cwd = [''work''], outDirOverride = None, campaignOverride = None, clicktagOverride = None,
      shouldZip = True, templateOverride = None, runMode = Incremental, runFilters = noFilters,
      clock = (\<lambda>i. ''2026-01-01T00:00:00.000Z''),
      templateAt = (\<lambda>p. if p = [''app'', ''templates'', ''standard''] then Some demoTemplate else None)\<rparr>"

definition demoCfg :: json where
  "demoCfg = JObj [(''campaign'', JStr ''c''), (''formats'', JArr [exampleFmt])]"

definition emptyWorld :: "json world" where
  "emptyWorld = \<lparr>fs = Dir [], zips = [], sizeLogs = []\<rparr>"

definition demoRoot :: path where
  "demoRoot = [''work'', ''src'', ''c'']"

definition demoFolderEntries :: "(string \<times> json node) list" where
  "demoFolderEntries =
     [(''index.html.mustache'', File (JStr ''<html>{{WIDTH}}x{{HEIGHT}}</html>'')),
      (''main.js'', File (JStr ''tl.play();'')),
      (''assets'', Dir []),
      (''index.html'', File (JStr ''<html>{{WIDTH}}x{{HEIGHT}}</html>'')),
      (''.gen-state.json'',
       File (genState [] (stableStringify demoEnv exampleFmt) ''standard''
               ''2026-01-01T00:00:00.000Z''))]"

definition demoTree :: "(string \<times> json node) list \<Rightarrow> json node" where
  "demoTree es =
     Dir [(''work'', Dir [(''src'', Dir [(''c'', Dir [(''en'', Dir [(''300x250'', Dir es)])])])])]"

definition demoWorld1 :: "json world" where
  "demoWorld1 =
     \<lparr>fs = demoTree demoFolderEntries,
      zips = [(''c_en_300x250.zip'',
               [([''main.js''], Some (JStr ''tl.play();'')), ([''assets''], None),
                ([''index.html''], Some (JStr ''<html>{{WIDTH}}x{{HEIGHT}}</html>''))])],
      sizeLogs = [(''c_en_300x250.zip'', LogSizeOk)]\<rparr>"

text \<open>
  What the conversions of a format give when they return, as they do for a format that has
  passed the filters: its width and height, its template type and root, its folder.
\<close>

definition fmtWidth :: "'b env \<Rightarrow> json \<Rightarrow> jsnum" where
  "fmtWidth E fmt = (case toNumber E (getp fmt ''width'') of Inr x \<Rightarrow> x | Inl e \<Rightarrow> NaN)"

definition fmtHeight :: "'b env \<Rightarrow> json \<Rightarrow> jsnum" where
  "fmtHeight E fmt = (case toNumber E (getp fmt ''height'') of Inr x \<Rightarrow> x | Inl e \<Rightarrow> NaN)"

definition templateOf :: "'b env \<Rightarrow> 'b runArgs \<Rightarrow> json \<Rightarrow> json \<Rightarrow> string \<times> path" where
  "templateOf E A cfg fmt =
     (case getTemplateRoot E fmt cfg (templateOverride A) of Inr tr \<Rightarrow> tr | Inl e \<Rightarrow> ([], []))"

definition artifactFolder :: "'b env \<Rightarrow> path \<Rightarrow> json \<Rightarrow> path" where
  "artifactFolder E outRoot fmt =
     (case bannerFolderFor E outRoot (fst (resolveLangAndMotive fmt)) (snd (resolveLangAndMotive fmt))
             (fmtWidth E fmt) (fmtHeight E fmt) of
        Inr p \<Rightarrow> p | Inl e \<Rightarrow> [])"

text \<open>A format survives when it passes the filters and its width and height are finite.\<close>

definition survives :: "'b env \<Rightarrow> 'b runArgs \<Rightarrow> json \<Rightarrow> nat \<Rightarrow> json \<Rightarrow> bool" where
  "survives E A cfg idx fmt =
     (matchesFilters E fmt idx cfg (templateOverride A) (runFilters A) = Inr True
      \<and> isFinite (fmtWidth E fmt) \<and> isFinite (fmtHeight E fmt))"

definition badFmt :: json where
  "badFmt = JObj [(''width'', JStr ''wide''), (''height'', JNum (Finite 250))]"

definition demoCfgBad :: json where
  "demoCfgBad = JObj [(''campaign'', JStr ''c''), (''formats'', JArr [exampleFmt, badFmt, exampleFmt])]"

text \<open>A path of an artifact that lies inside a directory named \<^verbatim>\<open>assets\<close>.\<close>

definition insideAssets :: "path \<Rightarrow> bool" where
  "insideAssets r = (''assets'' \<in> set (butlast r))"

definition userAssets :: "(string \<times> json node) list" where
  "userAssets = [(''assets'', Dir [(''logo.png'', File (JStr ''USER-LOGO''))])]"

text \<open>
  The exclusions in the words of the specification: a name with the suffix
  \<^verbatim>\<open>.mustache\<close> is a dynamic source, \<^verbatim>\<open>.DS_Store\<close> and \<^verbatim>\<open>Thumbs.db\<close> are the metadata files
  of the operating systems, \<^verbatim>\<open>.gen-state.json\<close> is the persisted generation state.
\<close>

definition excludedName :: "string \<Rightarrow> bool" where
  "excludedName name =
     (endsWith name ''.mustache'' \<or> name = ''.DS_Store'' \<or> name = ''Thumbs.db''
      \<or> name = ''.gen-state.json'')"

definition packedExample :: "(string \<times> json node) list" where
  "packedExample =
     [(''index.html'', File (JStr ''<html>300x250</html>'')),
      (''index.html.mustache'', File (JStr ''<html>{{WIDTH}}x{{HEIGHT}}</html>'')),
      (''.DS_Store'', File (JStr ''Bud1'')),
      (''.gen-state.json'', File (JStr ''{}'')),
      (''assets'', Dir [(''logo.png'', File (JStr ''PNG'')), (''Thumbs.db'', File (JStr ''db''))])]"

text \<open>
  The part of the loop body that works inside the artifact folder (cli.js 668-717), on the
  entries of the folder: template copy, assets directory, asset listing, the decision to
  render, rendering and the state file. The result says whether the format was rendered.
\<close>

definition folderStep ::
  "'b env \<Rightarrow> 'b runArgs \<Rightarrow> json \<Rightarrow> json \<Rightarrow> nat \<Rightarrow> json \<Rightarrow> bool \<Rightarrow> 'b node
     \<Rightarrow> (string \<times> 'b node) list \<Rightarrow> error + ((string \<times> 'b node) list \<times> jsnum option option)" where
  "folderStep E A cfg campaign idx fmt present tn es =
     (let width = fmtWidth E fmt; height = fmtHeight E fmt;
          langCode = fst (resolveLangAndMotive fmt);
          motiveName = snd (resolveLangAndMotive fmt);
          templateType = fst (templateOf E A cfg fmt);
          templateRoot = snd (templateOf E A cfg fmt)
      in bindE (ensureTemplateOnCreate templateRoot tn es present) (\<lambda>es1.
         bindE (ensureAssetsDir es1) (\<lambda>es2.
         bindE (readAssets es2) (\<lambda>assetsFiles.
         let prevState = readGenState E es2;
             fmtSig = stableStringify E fmt
         in if \<not> shouldRenderBanner (runMode A) present prevState assetsFiles fmtSig
            then Inr (es2, None)
            else
              bindE (parseKb E (getp fmt ''size'')) (\<lambda>maxBytes.
              let d = renderData E A cfg fmt campaign langCode motiveName width
                        height maxBytes assetsFiles templateType
              in bindE (renderFromMustacheFiles E d es2) (\<lambda>es3.
                 bindE (writeGenState E es3
                          (genState assetsFiles fmtSig templateType (clock A idx)))
                   (\<lambda>es4. Inr (es4, Some maxBytes))))))))"

text \<open>
  What the loop body does with the result of the work in the folder (cli.js 706-733): the
  folder is written back, and a rendered format is packaged and counted.
\<close>

definition finishStep ::
  "'b env \<Rightarrow> 'b runArgs \<Rightarrow> json \<Rightarrow> json \<Rightarrow> path \<Rightarrow> bool \<Rightarrow> 'b node \<Rightarrow> 'b world \<Rightarrow> counts
     \<Rightarrow> (string \<times> 'b node) list \<times> jsnum option option \<Rightarrow> error + ('b world \<times> counts)" where
  "finishStep E A campaign fmt bannerFolder present fs1 w n r =
     (let w1 = w\<lparr>fs := putAt bannerFolder (Dir (fst r)) fs1\<rparr>
      in case snd r of
           None \<Rightarrow> Inr (w1, n\<lparr>skippedCount := skippedCount n + 1\<rparr>)
         | Some maxBytes \<Rightarrow>
             bindE (if shouldZip A
                    then bindE (makeZipName E campaign (fst (resolveLangAndMotive fmt))
                                  (snd (resolveLangAndMotive fmt)) (fmtWidth E fmt) (fmtHeight E fmt))
                           (\<lambda>zipName. Inr (zipStep E zipName maxBytes (fst r) w1))
                    else Inr w1) (\<lambda>w2.
             Inr (w2, n\<lparr>processed := processed n + 1,
                            created := created n + (if present then 0 else 1),
                            updated := updated n + (if present then 1 else 0)\<rparr>)))"

text \<open>
  A state file that is missing, or that is a file whose content does not parse.
\<close>

definition stateUnreadable :: "'b env \<Rightarrow> (string \<times> 'b node) list \<Rightarrow> bool" where
  "stateUnreadable E es =
     (case map_of es ''.gen-state.json'' of
        None \<Rightarrow> True
      | Some (File c) \<Rightarrow> readJson_parse E c = None
      | Some (Dir sub) \<Rightarrow> False)"

definition brokenEntries :: "(string \<times> json node) list" where
  "brokenEntries =
     [(''index.html.mustache'', File (JStr ''<html>{{WIDTH}}x{{HEIGHT}}</html>'')),
      (''main.js'', File (JStr ''tl.play();'')),
      (''assets'', Dir []),
      (''index.html'', File (JStr ''<html>old</html>'')),
      (''.gen-state.json'', File (JStr ''{ assetsFiles: ''))]"

definition brokenWorld :: "json world" where
  "brokenWorld = \<lparr>fs = demoTree brokenEntries, zips = [], sizeLogs = []\<rparr>"

text \<open>
  No file directly inside the \<^verbatim>\<open>assets\<close> directory of a folder is a dynamic source: rendering
  such a file would add an asset.
\<close>

definition plainEntry :: "string \<times> 'b node \<Rightarrow> bool" where
  "plainEntry e = (case snd e of File c \<Rightarrow> \<not> endsWith (fst e) ''.mustache'' | Dir sub \<Rightarrow> True)"

definition cleanAssets :: "(string \<times> 'b node) list \<Rightarrow> bool" where
  "cleanAssets es =
     (case map_of es ''assets'' of Some (Dir as) \<Rightarrow> list_all plainEntry as | _ \<Rightarrow> True)"

text \<open>
  The folder of a format is settled when its state file records the current asset listing
  and the fingerprint of the format.
\<close>

definition settled :: "'b env \<Rightarrow> json \<Rightarrow> (string \<times> 'b node) list \<Rightarrow> bool" where
  "settled E fmt es =
     (case map_of es ''assets'' of
        Some (Dir as) \<Rightarrow>
          (case readGenState E es of
             Some st \<Rightarrow>
               getp st ''assetsFiles'' = Some (JArr (map JStr (sort (filter isAssetFile (map fst as)))))
               \<and> getp st ''fmtSig'' = Some (JStr (stableStringify E fmt))
           | None \<Rightarrow> False)
      | _ \<Rightarrow> False)"

text \<open>
  A folder that is missing, or whose entries have distinct names and hold no dynamic source
  directly in the assets directory.
\<close>

definition tidy :: "'b node option \<Rightarrow> bool" where
  "tidy x = (case x of Some (Dir es) \<Rightarrow> distinct (map fst es) \<and> cleanAssets es | _ \<Rightarrow> True)"

text \<open>
  The formats of a configuration that survive, in order, each with the index it has in the
  configuration.
\<close>

fun survivors :: "'b env \<Rightarrow> 'b runArgs \<Rightarrow> json \<Rightarrow> nat \<Rightarrow> json list \<Rightarrow> json list" where
  "survivors E A cfg idx [] = []"
| "survivors E A cfg idx (fmt # rest) =
     (if survives E A cfg idx fmt then [fmt] else []) @ survivors E A cfg (Suc idx) rest"

text \<open>Paths no two of which are equal or lie one below the other.\<close>

fun separate :: "path list \<Rightarrow> bool" where
  "separate [] = True"
| "separate (p # ps) = (list_all (\<lambda>q. \<not> prefix p q \<and> \<not> prefix q p) ps \<and> separate ps)"

text \<open>
  Every format either survives and finds its template, or is excluded by the filters.
\<close>

fun passes :: "'b env \<Rightarrow> 'b runArgs \<Rightarrow> json \<Rightarrow> nat \<Rightarrow> json list \<Rightarrow> bool" where
  "passes E A cfg idx [] = True"
| "passes E A cfg idx (fmt # rest) =
     ((if survives E A cfg idx fmt then templateAt A (snd (templateOf E A cfg fmt)) \<noteq> None
       else matchesFilters E fmt idx cfg (templateOverride A) (runFilters A) = Inr False)
      \<and> passes E A cfg (Suc idx) rest)"

text \<open>The output root of a run (cli.js 612-615).\<close>

definition runRoot :: "'b runArgs \<Rightarrow> json \<Rightarrow> path" where
  "runRoot A cfg = (case campaignOf A cfg of JStr c \<Rightarrow> outRootOf A c | _ \<Rightarrow> [])"

text \<open>
  A second format for the folder of the example format: the same size and language, and a
  click tag of its own. The folder as a render for the format \<open>fmt\<close> leaves it, and the
  world after \<open>k\<close> renders, the last one for \<open>fmt\<close>.
\<close>

definition dupFmt :: json where
  "dupFmt =
     JObj [(''width'', JNum (Finite 300)), (''height'', JNum (Finite 250)),
           (''language'', JStr ''en''), (''size'', JStr ''40kb''),
           (''clicktag'', JStr ''https://example.com/b'')]"

definition dupCfg :: json where
  "dupCfg = JObj [(''campaign'', JStr ''c''), (''formats'', JArr [exampleFmt, dupFmt])]"

definition demoEntriesFor :: "json \<Rightarrow> (string \<times> json node) list" where
  "demoEntriesFor fmt =
     [(''index.html.mustache'', File (JStr ''<html>{{WIDTH}}x{{HEIGHT}}</html>'')),
      (''main.js'', File (JStr ''tl.play();'')),
      (''assets'', Dir []),
      (''index.html'', File (JStr ''<html>{{WIDTH}}x{{HEIGHT}}</html>'')),
      (''.gen-state.json'',
       File (genState [] (stableStringify demoEnv fmt) ''standard''
               ''2026-01-01T00:00:00.000Z''))]"

definition demoWorldFor :: "json \<Rightarrow> nat \<Rightarrow> json world" where
  "demoWorldFor fmt k =
     \<lparr>fs = demoTree (demoEntriesFor fmt),
      zips = [(''c_en_300x250.zip'',
               [([''main.js''], Some (JStr ''tl.play();'')), ([''assets''], None),
                ([''index.html''], Some (JStr ''<html>{{WIDTH}}x{{HEIGHT}}</html>''))])],
      sizeLogs = replicate k (''c_en_300x250.zip'', LogSizeOk)\<rparr>"

section \<open>Properties\<close>

subsection \<open>Fingerprint\<close>

lemma sort_eq_of_distinct_set:
  fixes xs ys :: "string list"
  assumes "distinct xs" "distinct ys" "set xs = set ys"
  shows "sort xs = sort ys"
  using assms by (intro sorted_distinct_set_unique) simp_all

lemma key_perm_sorter: "key_perm v v' \<Longrightarrow> sorter v = sorter v'"
proof (induction rule: key_perm.induct)
  case (kp_arr xs ys)
  then have "list_all2 (\<lambda>x y. sorter x = sorter y) xs ys"
    by (simp add: list_all2_conv_all_nth)
  then have "map sorter xs = map sorter ys"
    by (induction rule: list_all2_induct) auto
  then show ?case by simp
next
  case (kp_obj kvs kvs')
  have s: "sort (map fst kvs) = sort (map fst kvs')"
    using kp_obj.hyps(1,2,3) by (rule sort_eq_of_distinct_set)
  have "map (\<lambda>k. (k, sorter (the (map_of kvs k))))
          (keyOrder (filter (\<lambda>k. k \<noteq> ''__proto__'') (sort (map fst kvs'))))
      = map (\<lambda>k. (k, sorter (the (map_of kvs' k))))
          (keyOrder (filter (\<lambda>k. k \<noteq> ''__proto__'') (sort (map fst kvs'))))"
  proof (intro map_cong refl)
    fix k assume "k \<in> set (keyOrder (filter (\<lambda>k. k \<noteq> ''__proto__'') (sort (map fst kvs'))))"
    then have "k \<in> set (map fst kvs)" using kp_obj.hyps(3) by (auto simp: keyOrder_def)
    then have "sorter (the (map_of kvs k)) = sorter (the (map_of kvs' k))"
      using kp_obj.IH by blast
    then show "(k, sorter (the (map_of kvs k))) = (k, sorter (the (map_of kvs' k)))" by simp
  qed
  then show ?case using s by simp
qed simp_all

lemma key_perm_example: "key_perm exampleFmt exampleFmtPermuted"
proof -
  have tags: "key_perm (JArr [JStr ''b'', JStr ''a'']) (JArr [JStr ''b'', JStr ''a''])"
    by (intro kp_arr) (simp add: kp_str)
  have brand:
    "key_perm (JObj [(''type'', JStr ''standard''), (''tags'', JArr [JStr ''b'', JStr ''a''])])
              (JObj [(''tags'', JArr [JStr ''b'', JStr ''a'']), (''type'', JStr ''standard'')])"
  proof (rule kp_obj)
    show "set (map fst [(''type'', JStr ''standard''), (''tags'', JArr [JStr ''b'', JStr ''a''])]) =
          set (map fst [(''tags'', JArr [JStr ''b'', JStr ''a'']), (''type'', JStr ''standard'')])"
      by auto
  qed (simp_all add: tags kp_str)
  show ?thesis
    unfolding exampleFmt_def exampleFmtPermuted_def
  proof (rule kp_obj)
    show "set (map fst [(''width'', JNum (Finite 300)), (''height'', JNum (Finite 250)),
           (''language'', JStr ''en''), (''size'', JStr ''40kb''),
           (''brand'', JObj [(''type'', JStr ''standard''), (''tags'', JArr [JStr ''b'', JStr ''a''])])]) =
       set (map fst [(''brand'', JObj [(''tags'', JArr [JStr ''b'', JStr ''a'']), (''type'', JStr ''standard'')]),
           (''size'', JStr ''40kb''), (''language'', JStr ''en''),
           (''height'', JNum (Finite 250)), (''width'', JNum (Finite 300))])"
      by auto
  qed (simp_all add: brand kp_str kp_num)
qed

text \<open>
  C3. Fingerprinting a value and fingerprinting any value obtained from it by permuting
  the key order of its objects, at any depth, give the same string; \<open>sorter\<close> keeps the
  order of array elements and leaves scalars unchanged.
\<close>

theorem fingerprint_key_order_independent:
  "(key_perm v v' \<longrightarrow> sorter v = sorter v' \<and> stableStringify E v = stableStringify E v')
   \<and> sorter (JArr xs) = JArr (map sorter xs)
   \<and> sorter JNull = JNull \<and> sorter (JBool b) = JBool b \<and> sorter (JNum n) = JNum n
   \<and> sorter (JStr s) = JStr s"
  by (auto simp: stableStringify_def dest: key_perm_sorter)

theorem fingerprint_key_order_independent_witness:
  "key_perm exampleFmt exampleFmtPermuted
   \<and> exampleFmt \<noteq> exampleFmtPermuted
   \<and> stableStringify demoEnv exampleFmt = stableStringify demoEnv exampleFmtPermuted"
proof -
  have ne: "exampleFmt \<noteq> exampleFmtPermuted"
    by (simp add: exampleFmt_def exampleFmtPermuted_def)
  show ?thesis
    using fingerprint_key_order_independent [of exampleFmt exampleFmtPermuted demoEnv]
      key_perm_example ne
    by blast
qed

subsection \<open>Size guard\<close>

text \<open>
  C4, as stated, fails: without a declared budget the check returns \<open>ok = True\<close> next to
  \<open>skipped = True\<close>, and a declared budget of zero bytes is treated like no budget, so an
  archive of 100 bytes is reported ok against it.
\<close>

theorem checkZipSize_counterexample:
  "ok (checkZipSize 100 None) \<and> skipped (checkZipSize 100 None)
   \<and> ok (checkZipSize 100 (Some (Finite 0))) \<and> \<not> js_le (Finite (of_nat 100)) (Finite 0)"
  by (simp add: checkZipSize_def falsyNum_def)

text \<open>
  C4, amended. For a declared budget of \<open>B > 0\<close> bytes and an archive of \<open>S\<close> bytes the check
  returns ok iff \<open>S \<le> B\<close>, is not marked skipped, reports the size and logs the ok line or
  the oversize warning accordingly; without a budget it returns \<open>ok\<close> and \<open>skipped\<close> both
  true, reads no size and logs nothing.
\<close>

theorem checkZipSize_result:
  "(0 < B \<longrightarrow>
      ok (checkZipSize S (Some (Finite B))) = (of_nat S \<le> B)
    \<and> \<not> skipped (checkZipSize S (Some (Finite B)))
    \<and> actualBytes (checkZipSize S (Some (Finite B))) = Some S
    \<and> logged (checkZipSize S (Some (Finite B))) =
        Some (if of_nat S \<le> B then LogSizeOk else LogOversize))
   \<and> checkZipSize S None =
       \<lparr>ok = True, skipped = True, actualBytes = None, reportedMax = None, logged = None\<rparr>"
  by (simp add: checkZipSize_def falsyNum_def Let_def)

theorem checkZipSize_result_witness:
  "(0::rat) < 40960
   \<and> ok (checkZipSize 51200 (Some (Finite 40960))) = False
   \<and> logged (checkZipSize 51200 (Some (Finite 40960))) = Some LogOversize
   \<and> ok (checkZipSize 40960 (Some (Finite 40960))) = True"
  using checkZipSize_result [of 40960 51200] checkZipSize_result [of 40960 40960]
  by simp

subsection \<open>Filters\<close>

lemma rejects_iff: "rejects F x = (\<not> (\<forall>S. F = Some S \<longrightarrow> x \<in> set S))"
  by (cases F) auto

lemma bindE_case: "bindE m f = (case m of Inl e \<Rightarrow> Inl e | Inr x \<Rightarrow> f x)"
  by (cases m) auto

lemma jsString_Inl: "jsString E v = Inl e \<longleftrightarrow> e = TypeError \<and> \<not> stringable v"
  by (auto simp: jsString_def)

lemma jsString_Inr: "jsString E v = Inr s \<longleftrightarrow> stringable v \<and> s = strText E v"
  by (auto simp: jsString_def)

lemma toNumber_Inl: "toNumber E v = Inl e \<Longrightarrow> e = TypeError"
  by (cases "(E, v)" rule: toNumber.cases) (auto simp: bindE_case jsString_Inl split: sum.splits)

lemma normalizeSize_Inl: "normalizeSize E a b = Inl e \<Longrightarrow> e = TypeError"
  by (auto simp: normalizeSize_def bindE_case split: sum.splits dest: toNumber_Inl)

lemma getTemplateRoot_Inl: "getTemplateRoot E fmt cfg tov = Inl e \<Longrightarrow> e = TypeError"
  by (auto simp: getTemplateRoot_def bindE_case jsString_Inl split: sum.splits option.splits)

text \<open>
  C7, as stated, fails: a format whose language is an object with an own property
  \<^verbatim>\<open>toString\<close> does not pass the filter engine, even when no filter is supplied: \<^verbatim>\<open>String\<close>
  throws a \<^verbatim>\<open>TypeError\<close> before any filter is tested.
\<close>

theorem matchesFilters_counterexample:
  "matchesFilters demoEnv opaqueFmt 0 (JObj []) None noFilters = Inl TypeError
   \<and> opaqueFmt \<noteq> JNull"
  by (simp add: matchesFilters_def opaqueFmt_def normalizeSize_def jsString_def)

text \<open>
  C7, amended. The filter engine returns for a format (an entry that is not \<^verbatim>\<open>null\<close>) iff
  its size, language, motive and template type convert; it throws a \<^verbatim>\<open>TypeError\<close>
  otherwise, whatever the filters. When it returns, the format passes iff it satisfies
  every supplied filter: index, size string, language, motive and resolved template type;
  a filter that is absent constrains nothing, and with no filter the format passes.
\<close>

theorem matchesFilters_conjunction:
  "(fmt \<noteq> JNull
      \<and> normalizeSize E (getp fmt ''width'') (getp fmt ''height'') = Inr sz
      \<and> jsString E (orElse (getp fmt ''language'') (orElse (getp fmt ''lang'') (JStr []))) = Inr lang
      \<and> jsString E (orElse (getp fmt ''motive'') (orElse (getp fmt ''motiveName'') (JStr []))) = Inr motive
      \<and> getTemplateRoot E fmt cfg tov = Inr tr
    \<longrightarrow> matchesFilters E fmt idx cfg tov f =
          Inr ((\<forall>S. onlyIndex f = Some S \<longrightarrow> Finite (of_nat idx) \<in> set S)
             \<and> (\<forall>S. onlySize f = Some S \<longrightarrow> sz \<in> set S)
             \<and> (\<forall>S. onlyLang f = Some S \<longrightarrow> lang \<in> set S)
             \<and> (\<forall>S. onlyMotive f = Some S \<longrightarrow> motive \<in> set S)
             \<and> (\<forall>S. onlyTemplate f = Some S \<longrightarrow> fst tr \<in> set S))
        \<and> matchesFilters E fmt idx cfg tov noFilters = Inr True)
   \<and> (matchesFilters E fmt idx cfg tov f = Inl e \<longleftrightarrow>
        e = TypeError
        \<and> (fmt = JNull
           \<or> normalizeSize E (getp fmt ''width'') (getp fmt ''height'') = Inl TypeError
           \<or> \<not> stringable (orElse (getp fmt ''language'') (orElse (getp fmt ''lang'') (JStr [])))
           \<or> \<not> stringable (orElse (getp fmt ''motive'') (orElse (getp fmt ''motiveName'') (JStr [])))
           \<or> getTemplateRoot E fmt cfg tov = Inl TypeError))"
proof (intro conjI impI)
  assume a: "fmt \<noteq> JNull
      \<and> normalizeSize E (getp fmt ''width'') (getp fmt ''height'') = Inr sz
      \<and> jsString E (orElse (getp fmt ''language'') (orElse (getp fmt ''lang'') (JStr []))) = Inr lang
      \<and> jsString E (orElse (getp fmt ''motive'') (orElse (getp fmt ''motiveName'') (JStr []))) = Inr motive
      \<and> getTemplateRoot E fmt cfg tov = Inr tr"
  then show "matchesFilters E fmt idx cfg tov f =
          Inr ((\<forall>S. onlyIndex f = Some S \<longrightarrow> Finite (of_nat idx) \<in> set S)
             \<and> (\<forall>S. onlySize f = Some S \<longrightarrow> sz \<in> set S)
             \<and> (\<forall>S. onlyLang f = Some S \<longrightarrow> lang \<in> set S)
             \<and> (\<forall>S. onlyMotive f = Some S \<longrightarrow> motive \<in> set S)
             \<and> (\<forall>S. onlyTemplate f = Some S \<longrightarrow> fst tr \<in> set S))"
    by (simp add: matchesFilters_def Let_def rejects_iff)
  from a show "matchesFilters E fmt idx cfg tov noFilters = Inr True"
    by (simp add: matchesFilters_def Let_def noFilters_def)
next
  show "matchesFilters E fmt idx cfg tov f = Inl e \<longleftrightarrow>
        e = TypeError
        \<and> (fmt = JNull
           \<or> normalizeSize E (getp fmt ''width'') (getp fmt ''height'') = Inl TypeError
           \<or> \<not> stringable (orElse (getp fmt ''language'') (orElse (getp fmt ''lang'') (JStr [])))
           \<or> \<not> stringable (orElse (getp fmt ''motive'') (orElse (getp fmt ''motiveName'') (JStr [])))
           \<or> getTemplateRoot E fmt cfg tov = Inl TypeError)"
    by (auto simp: matchesFilters_def Let_def bindE_case jsString_def
        split: sum.splits dest: normalizeSize_Inl getTemplateRoot_Inl)
qed

lemma exampleFmt_size:
  "normalizeSize demoEnv (getp exampleFmt ''width'') (getp exampleFmt ''height'') = Inr ''300x250''"
  by (simp add: exampleFmt_def normalizeSize_def demoEnv_def natStr.simps digitChar_def)

theorem matchesFilters_conjunction_witness:
  "exampleFmt \<noteq> JNull
   \<and> normalizeSize demoEnv (getp exampleFmt ''width'') (getp exampleFmt ''height'') = Inr ''300x250''
   \<and> jsString demoEnv (orElse (getp exampleFmt ''language'') (orElse (getp exampleFmt ''lang'') (JStr [])))
       = Inr ''en''
   \<and> jsString demoEnv (orElse (getp exampleFmt ''motive'') (orElse (getp exampleFmt ''motiveName'') (JStr [])))
       = Inr []
   \<and> getTemplateRoot demoEnv exampleFmt (JObj []) None = Inr (''standard'', [''app'', ''templates'', ''standard''])
   \<and> matchesFilters demoEnv exampleFmt 0 (JObj []) None exampleFilters = Inr True
   \<and> matchesFilters demoEnv exampleFmt 0 (JObj []) None
        (exampleFilters\<lparr>onlyIndex := Some [Finite 1]\<rparr>) = Inr False
   \<and> matchesFilters demoEnv exampleFmt 0 (JObj []) None
        (exampleFilters\<lparr>onlyTemplate := Some [''rich'']\<rparr>) = Inr False
   \<and> matchesFilters demoEnv exampleFmt 0 (JObj []) None noFilters = Inr True
   \<and> \<not> stringable (orElse (getp opaqueFmt ''language'') (orElse (getp opaqueFmt ''lang'') (JStr [])))
   \<and> matchesFilters demoEnv opaqueFmt 0 (JObj []) None exampleFilters = Inl TypeError"
proof -
  have ne: "exampleFmt \<noteq> JNull" by (simp add: exampleFmt_def)
  have l: "jsString demoEnv (orElse (getp exampleFmt ''language'') (orElse (getp exampleFmt ''lang'') (JStr []))) = Inr ''en''"
    by (simp add: exampleFmt_def jsString_def)
  have m: "jsString demoEnv (orElse (getp exampleFmt ''motive'') (orElse (getp exampleFmt ''motiveName'') (JStr []))) = Inr []"
    by (simp add: exampleFmt_def jsString_def)
  have t: "getTemplateRoot demoEnv exampleFmt (JObj []) None = Inr (''standard'', [''app'', ''templates'', ''standard''])"
    by (simp add: getTemplateRoot_def exampleFmt_def jsString_def demoEnv_def path_join_def normStep_def)
  have o: "\<not> stringable (orElse (getp opaqueFmt ''language'') (orElse (getp opaqueFmt ''lang'') (JStr [])))"
    by (simp add: opaqueFmt_def)
  note c = matchesFilters_conjunction [where fmt = exampleFmt and E = demoEnv and idx = 0
      and cfg = "JObj []" and tov = None and sz = "''300x250''" and lang = "''en''"
      and motive = "[]" and tr = "(''standard'', [''app'', ''templates'', ''standard''])"]
  have 1: "matchesFilters demoEnv exampleFmt 0 (JObj []) None exampleFilters = Inr True"
    using c [of exampleFilters] ne l m t exampleFmt_size
    by (simp add: exampleFilters_def noFilters_def)
  have 2: "matchesFilters demoEnv exampleFmt 0 (JObj []) None
        (exampleFilters\<lparr>onlyIndex := Some [Finite 1]\<rparr>) = Inr False"
    using c [of "exampleFilters\<lparr>onlyIndex := Some [Finite 1]\<rparr>"] ne l m t exampleFmt_size
    by (simp add: exampleFilters_def noFilters_def)
  have 3: "matchesFilters demoEnv exampleFmt 0 (JObj []) None
        (exampleFilters\<lparr>onlyTemplate := Some [''rich'']\<rparr>) = Inr False"
    using c [of "exampleFilters\<lparr>onlyTemplate := Some [''rich'']\<rparr>"] ne l m t exampleFmt_size
    by (simp add: exampleFilters_def noFilters_def)
  have 4: "matchesFilters demoEnv exampleFmt 0 (JObj []) None noFilters = Inr True"
    using c [of exampleFilters] ne l m t exampleFmt_size by simp
  have 5: "matchesFilters demoEnv opaqueFmt 0 (JObj []) None exampleFilters = Inl TypeError"
    using matchesFilters_conjunction [where fmt = opaqueFmt and E = demoEnv and idx = 0
      and cfg = "JObj []" and tov = None and f = exampleFilters and e = TypeError] o
    by simp
  show ?thesis using ne l m t exampleFmt_size 1 2 3 4 5 o by simp
qed

subsection \<open>Budget strings\<close>

lemma lower_k_cases: "lower c = CHR ''k'' \<Longrightarrow> c = CHR ''k'' \<or> c = CHR ''K''"
  unfolding lower_def by (simp split: if_splits)

lemma lower_k: "lower c = CHR ''k'' \<Longrightarrow> \<not> isDigit c \<and> \<not> isSpace c \<and> c \<noteq> CHR ''.''"
  by (drule lower_k_cases) (auto simp: isDigit_def isSpace_def)

lemma space_not_digit_dot: "isSpace c \<Longrightarrow> \<not> isDigit c \<and> c \<noteq> CHR ''.''"
  by (auto simp: isDigit_def isSpace_def)

lemma dot_not_digit: "\<not> isDigit CHR ''.''"
  by (auto simp: isDigit_def)

lemma takeWhile_all_stop:
  "list_all P xs \<Longrightarrow> (ys = [] \<or> \<not> P (hd ys)) \<Longrightarrow> takeWhile P (xs @ ys) = xs"
  by (induction xs) (auto simp: takeWhile_eq_Nil_iff)

lemma dropWhile_all_stop:
  "list_all P xs \<Longrightarrow> (ys = [] \<or> \<not> P (hd ys)) \<Longrightarrow> dropWhile P (xs @ ys) = ys"
  by (induction xs) (auto simp: dropWhile_eq_self_iff)

lemma kb_tail:
  assumes "list_all isSpace ws" "map lower u = ''kb''"
  shows "ws @ u \<noteq> []" "\<not> isDigit (hd (ws @ u))" "hd (ws @ u) \<noteq> CHR ''.''"
        "dropWhile isSpace (ws @ u) = u"
proof -
  obtain k b where u: "u = [k, b]" "lower k = CHR ''k''"
    using assms(2) by (cases u; cases "tl u") auto
  show "ws @ u \<noteq> []" using u by simp
  show "\<not> isDigit (hd (ws @ u))" using u assms(1) lower_k space_not_digit_dot
    by (cases ws) auto
  show "hd (ws @ u) \<noteq> CHR ''.''" using u assms(1) lower_k space_not_digit_dot
    by (cases ws) auto
  show "dropWhile isSpace (ws @ u) = u"
    using assms(1) u lower_k by (intro dropWhile_all_stop) auto
qed

lemma matchKb_complete:
  assumes "kb_pattern s m"
  shows "matchKb s = Some m"
proof -
  from assms obtain ds fr ws u where
    s: "s = m @ ws @ u" and m: "m = ds @ fr" and ds: "ds \<noteq> []" "list_all isDigit ds"
    and fr: "fr = [] \<or> (\<exists>fs. fr = CHR ''.'' # fs \<and> fs \<noteq> [] \<and> list_all isDigit fs)"
    and ws: "list_all isSpace ws" and u: "map lower u = ''kb''"
    unfolding kb_pattern_def by (elim exE conjE) (rule that; assumption)
  note t = kb_tail [OF ws u]
  show ?thesis
  proof (cases "fr = []")
    case True
    have s': "s = ds @ (ws @ u)" using s m True by simp
    have 1: "takeWhile isDigit s = ds" "dropWhile isDigit s = ws @ u"
      unfolding s' using ds(2) t(1,2)
      by (auto intro!: takeWhile_all_stop dropWhile_all_stop)
    have "matchKb s = Some ds"
      unfolding matchKb_def Let_def 1 using t(3) t(4) ds(1) u by simp
    then show ?thesis using m True by simp
  next
    case False
    then obtain fs where f: "fr = CHR ''.'' # fs" "fs \<noteq> []" "list_all isDigit fs"
      using fr by blast
    have s': "s = ds @ (CHR ''.'' # fs @ ws @ u)" using s m f by simp
    have 1: "takeWhile isDigit s = ds" "dropWhile isDigit s = CHR ''.'' # fs @ ws @ u"
      unfolding s' using ds(2) dot_not_digit
      by (auto intro!: takeWhile_all_stop dropWhile_all_stop)
    have 2: "takeWhile isDigit (fs @ ws @ u) = fs" "dropWhile isDigit (fs @ ws @ u) = ws @ u"
      using f(3) t(1,2) by (auto intro!: takeWhile_all_stop dropWhile_all_stop)
    have "matchKb s = Some (ds @ ''.'' @ fs)"
      unfolding matchKb_def Let_def 1 using 2 t(4) ds(1) f(2) u by simp
    then show ?thesis using m f by simp
  qed
qed

lemma matchKb_sound:
  assumes "matchKb s = Some m"
  shows "kb_pattern s m"
proof -
  define ds where "ds = takeWhile isDigit s"
  define r1 where "r1 = dropWhile isDigit s"
  define fs where "fs = takeWhile isDigit (drop 1 r1)"
  define frac where "frac = (r1 \<noteq> [] \<and> hd r1 = CHR ''.'' \<and> fs \<noteq> [])"
  define r2 where "r2 = (if frac then dropWhile isDigit (drop 1 r1) else r1)"
  define ws where "ws = takeWhile isSpace r2"
  define u where "u = dropWhile isSpace r2"
  from assms have a: "ds \<noteq> []" "map lower u = ''kb''" "m = (if frac then ds @ ''.'' @ fs else ds)"
    unfolding matchKb_def Let_def ds_def r1_def fs_def frac_def r2_def u_def
    by (auto split: if_splits)
  have s: "s = ds @ r1" unfolding ds_def r1_def by simp
  have r2: "r2 = ws @ u" unfolding ws_def u_def by simp
  have d: "list_all isDigit ds" "list_all isDigit fs" "list_all isSpace ws"
    unfolding ds_def fs_def ws_def by (auto simp: list_all_iff dest: set_takeWhileD)
  show ?thesis
  proof (cases frac)
    case True
    then have "r1 = CHR ''.'' # drop 1 r1" unfolding frac_def by (cases r1) auto
    also have "drop 1 r1 = fs @ r2" using True unfolding fs_def r2_def by simp
    finally have "s = (ds @ ''.'' @ fs) @ ws @ u" using s r2 by simp
    then show ?thesis
      unfolding kb_pattern_def using a d True unfolding frac_def
      by (intro exI [of _ ds] exI [of _ "CHR ''.'' # fs"] exI [of _ ws] exI [of _ u]) auto
  next
    case False
    then have "s = ds @ ws @ u" using s r2 unfolding r2_def by simp
    then show ?thesis
      unfolding kb_pattern_def using a d False
      by (intro exI [of _ ds] exI [of _ "[]"] exI [of _ ws] exI [of _ u]) auto
  qed
qed

lemma matchKb_iff: "matchKb s = Some m \<longleftrightarrow> kb_pattern s m"
  using matchKb_sound matchKb_complete by blast

lemma kb_pattern_example: "kb_pattern ''1.5 KB'' ''1.5''"
  unfolding matchKb_iff [symmetric]
  by (simp add: matchKb_def isDigit_def isSpace_def lower_def Let_def)


lemma no_pattern_object: "\<forall>m. \<not> kb_pattern (trim ''[object Object]'') m"
proof -
  have "matchKb (trim ''[object Object]'') = None"
    by (simp add: matchKb_def trim_def isDigit_def isSpace_def Let_def)
  then show ?thesis by (simp add: matchKb_iff [symmetric])
qed

text \<open>
  C10, as stated, fails: a size field that is an object with an own property \<^verbatim>\<open>toString\<close> is
  not falsy and does not match the pattern, yet it gives no \<^verbatim>\<open>null\<close> budget: \<^verbatim>\<open>String\<close> throws a
  \<^verbatim>\<open>TypeError\<close>, and the loop body, which calls \<^verbatim>\<open>parseKb\<close> once it has decided to render,
  aborts the run.
\<close>

theorem parseKb_counterexample:
  "truthy opaqueSize
   \<and> (\<forall>m. \<not> kb_pattern (trim (strText demoEnv opaqueSize)) m)
   \<and> parseKb demoEnv (Some opaqueSize) = Inl TypeError"
  using no_pattern_object by (simp add: parseKb_def opaqueSize_def jsString_def)

text \<open>
  C10, amended. A size field that is absent or falsy gives no budget (\<open>None\<close>). Any other
  value is converted with \<^verbatim>\<open>String\<close>: when the conversion throws (an object with an own
  property \<^verbatim>\<open>toString\<close>, or an array that holds one), \<^verbatim>\<open>parseKb\<close> throws a \<^verbatim>\<open>TypeError\<close>; when the
  trimmed string does not match the pattern \<^verbatim>\<open><number>kb\<close> there is no budget; when it matches
  with the number part \<open>m\<close> and \<^verbatim>\<open>Number(m)\<close> is the finite number \<open>q\<close>, the budget is the integer
  nearest to \<open>q * 1024\<close>, a tie going up, unless the product exceeds the largest double, and
  then it is \<^verbatim>\<open>Infinity\<close>. Without a budget the size check is skipped: it returns ok, reads
  no size, and the packaging step logs no size line.
\<close>

theorem parseKb_budget:
  "parseKb E None = Inr None
   \<and> (\<not> truthy v \<longrightarrow> parseKb E (Some v) = Inr None)
   \<and> (truthy v \<and> \<not> stringable v \<longrightarrow> parseKb E (Some v) = Inl TypeError)
   \<and> (stringable v \<and> (\<forall>m. \<not> kb_pattern (trim (strText E v)) m) \<longrightarrow> parseKb E (Some v) = Inr None)
   \<and> (truthy v \<and> stringable v \<and> kb_pattern (trim (strText E v)) m \<longrightarrow>
        parseKb E (Some v) =
          Inr (Some (case strToNum E m of
                       Finite q \<Rightarrow>
                         if maxDouble < q * 1024 then PosInf
                         else if q * 1024 < - maxDouble then NegInf
                         else Finite (of_int \<lfloor>q * 1024 + 1 / 2\<rfloor>)
                     | x \<Rightarrow> x)))
   \<and> (parseKb E sz = Inr b \<and> b = None \<longrightarrow>
        checkZipSize S b =
          \<lparr>ok = True, skipped = True, actualBytes = None, reportedMax = None, logged = None\<rparr>
        \<and> sizeLogs (zipStep E zipName b es w) = sizeLogs w)"
proof -
  have 1: "(\<forall>m. \<not> kb_pattern (trim (strText E v)) m) \<Longrightarrow> matchKb (trim (strText E v)) = None"
    using matchKb_iff by (cases "matchKb (trim (strText E v))") auto
  have 2: "kb_pattern (trim (strText E v)) m \<Longrightarrow> matchKb (trim (strText E v)) = Some m"
    by (simp add: matchKb_iff)
  have 3: "Math_round (times1024 x) =
      (case x of
         Finite q \<Rightarrow>
           if maxDouble < q * 1024 then PosInf
           else if q * 1024 < - maxDouble then NegInf
           else Finite (of_int \<lfloor>q * 1024 + 1 / 2\<rfloor>)
       | x \<Rightarrow> x)" for x
    by (cases x) auto
  show ?thesis
    using 1 2
    by (auto simp: parseKb_def jsString_def 3 checkZipSize_def falsyNum_def zipStep_def Let_def)
qed

lemma kb_pattern_tie: "kb_pattern ''1.00048828125kb'' ''1.00048828125''"
  unfolding matchKb_iff [symmetric]
  by (simp add: matchKb_def isDigit_def isSpace_def lower_def Let_def)

theorem parseKb_budget_witness:
  "\<not> truthy (JStr []) \<and> parseKb demoEnv (Some (JStr [])) = Inr None
   \<and> truthy opaqueSize \<and> \<not> stringable opaqueSize \<and> parseKb demoEnv (Some opaqueSize) = Inl TypeError
   \<and> stringable (JStr ''40 kilobytes'')
   \<and> (\<forall>m. \<not> kb_pattern (trim (strText demoEnv (JStr ''40 kilobytes''))) m)
   \<and> parseKb demoEnv (Some (JStr ''40 kilobytes'')) = Inr None
   \<and> truthy (JStr '' 1.5 KB'') \<and> kb_pattern (trim (strText demoEnv (JStr '' 1.5 KB''))) ''1.5''
   \<and> parseKb demoEnv (Some (JStr '' 1.5 KB'')) = Inr (Some (Finite 1536))
   \<and> kb_pattern (trim (strText demoEnv (JStr ''1.00048828125kb''))) ''1.00048828125''
   \<and> strToNum demoEnv ''1.00048828125'' = Finite (2049 / 2048)
   \<and> parseKb demoEnv (Some (JStr ''1.00048828125kb'')) = Inr (Some (Finite 1025))
   \<and> ok (checkZipSize 99999 None)
   \<and> sizeLogs (zipStep demoEnv ''c.zip'' None [] emptyWorld) = sizeLogs emptyWorld"
proof -
  have t: "trim '' 1.5 KB'' = ''1.5 KB''" "trim ''40 kilobytes'' = ''40 kilobytes''"
    "trim ''1.00048828125kb'' = ''1.00048828125kb''"
    by (simp_all add: trim_def isSpace_def)
  have n: "matchKb ''40 kilobytes'' = None"
    by (simp add: matchKb_def isDigit_def isSpace_def lower_def Let_def)
  have no: "\<forall>m. \<not> kb_pattern (trim (strText demoEnv (JStr ''40 kilobytes''))) m"
    using n by (simp add: t matchKb_iff [symmetric])
  have q1: "strToNum demoEnv ''1.5'' = Finite (3 / 2)"
    by (simp add: demoEnv_def demoStrToNum_def trim_def isSpace_def isDigit_def Let_def digitsVal_def)
  have q2: "strToNum demoEnv ''1.00048828125'' = Finite (2049 / 2048)"
    by (simp add: demoEnv_def demoStrToNum_def trim_def isSpace_def isDigit_def Let_def digitsVal_def)
  have fl: "\<lfloor>3073 / 2 :: rat\<rfloor> = 1536" by (simp add: floor_eq_iff)
  have o: "truthy opaqueSize" "\<not> stringable opaqueSize" by (simp_all add: opaqueSize_def)
  have a: "parseKb demoEnv (Some (JStr [])) = Inr None"
    using parseKb_budget [of demoEnv "JStr []"] by simp
  have b: "parseKb demoEnv (Some opaqueSize) = Inl TypeError"
    using parseKb_budget [of demoEnv opaqueSize] o by simp
  have c: "parseKb demoEnv (Some (JStr ''40 kilobytes'')) = Inr None"
    using parseKb_budget [of demoEnv "JStr ''40 kilobytes''"] no by simp
  have d: "parseKb demoEnv (Some (JStr '' 1.5 KB'')) = Inr (Some (Finite 1536))"
    using parseKb_budget [of demoEnv "JStr '' 1.5 KB''" "''1.5''"] kb_pattern_example
    by (simp add: t q1 fl maxDouble_def)
  have e: "parseKb demoEnv (Some (JStr ''1.00048828125kb'')) = Inr (Some (Finite 1025))"
    using parseKb_budget [of demoEnv "JStr ''1.00048828125kb''" "''1.00048828125''"] kb_pattern_tie
    by (simp add: t q2 maxDouble_def)
  have f: "ok (checkZipSize 99999 None)"
    "sizeLogs (zipStep demoEnv ''c.zip'' None [] emptyWorld) = sizeLogs emptyWorld"
    using parseKb_budget [of demoEnv "JStr []" "[]" None None 99999 "''c.zip''" "[]" emptyWorld]
    by simp_all
  show ?thesis
    using a b c d e f o no kb_pattern_example kb_pattern_tie q2 by (simp add: t)
qed

subsection \<open>The example environment\<close>

named_theorems demo_eval

lemma demoEnv_fields [demo_eval]:
  "mustache_render demoEnv raw d = Some raw"
  "writeJson_text demoEnv v = v"
  "readJson_parse demoEnv c = demoParse c"
  "archive_size demoEnv es = 1024 * length es"
  "TEMPLATES_DIR demoEnv = [''app'', ''templates'']"
  "numStr demoEnv = demoNumStr"
  "strToNum demoEnv = demoStrToNum"
  by (simp_all add: demoEnv_def)

lemma exampleFmt_fields [demo_eval]:
  "exampleFmt \<noteq> JNull"
  "getp exampleFmt ''width'' = Some (JNum (Finite 300))"
  "getp exampleFmt ''height'' = Some (JNum (Finite 250))"
  "getp exampleFmt ''language'' = Some (JStr ''en'')"
  "getp exampleFmt ''motive'' = None"
  "getp exampleFmt ''motiveName'' = None"
  "getp exampleFmt ''size'' = Some (JStr ''40kb'')"
  "getp exampleFmt ''brand'' = Some (JObj [(''type'', JStr ''standard''), (''tags'', JArr [JStr ''b'', JStr ''a''])])"
  "getp exampleFmt ''adserver'' = None"
  "getp exampleFmt ''clicktag'' = None"
  by (simp_all add: exampleFmt_def)

lemma demo_numbers [demo_eval]:
  "demoNumStr (Finite 300) = ''300''" "demoNumStr (Finite 250) = ''250''"
  by (simp_all add: natStr.simps digitChar_def)

lemma demo_budget [demo_eval]: "parseKb demoEnv (Some (JStr ''40kb'')) = Inr (Some (Finite 40960))"
  by (simp add: parseKb_def jsString_def trim_def matchKb_def isSpace_def isDigit_def lower_def Let_def
      demoEnv_def demoStrToNum_def digitsVal_def maxDouble_def floor_eq_iff)

lemma demo_zipName [demo_eval]:
  "makeZipName demoEnv (JStr ''c'') (JStr ''en'') JNull (Finite 300) (Finite 250) =
     Inr ''c_en_300x250.zip''"
  by code_simp

lemma demo_folder [demo_eval]:
  "bannerFolderFor demoEnv demoRoot (JStr ''en'') JNull (Finite 300) (Finite 250)
     = Inr [''work'', ''src'', ''c'', ''en'', ''300x250'']"
  by code_simp

lemma demo_templateRoot [demo_eval]:
  "getTemplateRoot demoEnv exampleFmt cfg None =
     Inr (''standard'', [''app'', ''templates'', ''standard''])"
  by (simp add: getTemplateRoot_def jsString_def demo_eval path_join_def normStep_def Let_def)

lemma demo_matches [demo_eval]:
  "matchesFilters demoEnv exampleFmt idx cfg None noFilters = Inr True"
  by (simp add: matchesFilters_def normalizeSize_def jsString_def noFilters_def demo_eval Let_def)

lemma demo_conversions [demo_eval]:
  "fmtWidth demoEnv exampleFmt = Finite 300" "fmtHeight demoEnv exampleFmt = Finite 250"
  "templateOverride A = None \<Longrightarrow>
   templateOf demoEnv A cfg exampleFmt = (''standard'', [''app'', ''templates'', ''standard''])"
  by (simp_all add: fmtWidth_def fmtHeight_def templateOf_def demo_eval)

lemma demo_copyFilter [demo_eval]:
  "copyFilter [''app'', ''templates'', ''standard'']"
  "copyFilter [''app'', ''templates'', ''standard'', ''index.html.mustache'']"
  "copyFilter [''app'', ''templates'', ''standard'', ''main.js'']"
  "copyFilter [''app'', ''templates'', ''standard'', ''assets'']"
  "\<not> copyFilter [''app'', ''templates'', ''standard'', ''assets'', ''default.png'']"
  by code_simp+

lemma demo_zip [demo_eval]:
  "zipFolder demoFolderEntries =
     [([''main.js''], Some (JStr ''tl.play();'')), ([''assets''], None),
      ([''index.html''], Some (JStr ''<html>{{WIDTH}}x{{HEIGHT}}</html>''))]"
  unfolding demoFolderEntries_def zipFolder_def
  by (simp add: ignored_def ignorePatterns_def)

lemma demo_suffix [demo_eval]:
  "suffix ''.mustache'' ''index.html.mustache''" "\<not> suffix ''.mustache'' ''main.js''"
  by (simp_all add: suffix_to_prefix)

lemma demo_step_create:
  assumes "getp cfg ''brand'' = None"
  shows "processFormat demoEnv demoArgs cfg (JStr ''c'') demoRoot idx exampleFmt (emptyWorld, n) =
     Inr (demoWorld1, n\<lparr>processed := processed n + 1, created := created n + 1,
                         updated := updated n\<rparr>)"
  using assms
  by (simp add: processFormat_def Let_def demo_eval resolveLangAndMotive_def
      demoArgs_def emptyWorld_def pathExists_def shouldProcessBanner_def
      demoTemplate_def ensureTemplateOnCreate_def ensureAssetsDir_def readAssets_def
      readGenState_def shouldRenderBanner_def renderFromMustacheFiles_def endsWith_def
      writeGenState_def zipStep_def demoWorld1_def demoTree_def demoFolderEntries_def
      checkZipSize_def falsyNum_def demo_zip [unfolded demoFolderEntries_def])

subsection \<open>The loop body\<close>

lemma strict_eq_JStr: "strict_eq x (JStr s) = (x = JStr s)"
  by (cases x) auto

lemma sameElems_strings:
  "length xs = length ss \<Longrightarrow> sameElems xs (map JStr ss) = (xs = map JStr ss)"
proof (induction xs arbitrary: ss)
  case Nil
  then show ?case by simp
next
  case (Cons x xs)
  then obtain s ss' where "ss = s # ss'" by (cases ss) auto
  with Cons show ?case by (auto simp: strict_eq_JStr)
qed

lemma sameStringArray_strings:
  "sameStringArray a (Some (JArr (map JStr ss))) = (a = Some (JArr (map JStr ss)))"
proof (cases a)
  case None
  then show ?thesis by simp
next
  case (Some v)
  show ?thesis
  proof (cases v)
    case (JArr xs)
    show ?thesis
    proof (cases "length xs = length ss")
      case True
      then show ?thesis using Some JArr by (simp add: sameElems_strings)
    next
      case False
      then show ?thesis using Some JArr by auto
    qed
  qed (simp_all add: Some)
qed

lemma falsy_no_props: "\<not> truthy_opt prev \<Longrightarrow> getq prev k = None"
proof (cases prev)
  case None
  then show ?thesis by simp
next
  case (Some v)
  assume "\<not> truthy_opt prev"
  then show ?thesis using Some by (cases v) auto
qed

lemma shouldRender_incremental:
  "shouldRenderBanner Incremental present prev af sig =
     (\<not> present \<or> prev = None \<or> getq prev ''assetsFiles'' \<noteq> Some (JArr (map JStr af))
      \<or> getq prev ''fmtSig'' \<noteq> Some (JStr sig))"
proof (cases "truthy_opt prev")
  case True
  then have "prev \<noteq> None" by (cases prev) auto
  then show ?thesis
    using True by (auto simp: shouldRenderBanner_def sameStringArray_strings)
next
  case False
  then show ?thesis
    by (simp add: shouldRenderBanner_def falsy_no_props)
qed

text \<open>
  A format for which the filter engine returns has all its conversions return: the loop
  body converts the same values again.
\<close>

lemma toNumber_value:
  "toNumber E (getp fmt ''width'') = Inr x \<Longrightarrow> fmtWidth E fmt = x"
  "toNumber E (getp fmt ''height'') = Inr x \<Longrightarrow> fmtHeight E fmt = x"
  by (simp_all add: fmtWidth_def fmtHeight_def)

lemma orElse_default:
  "truthy (orElse a (orElse b JNull)) \<Longrightarrow> orElse a (orElse b d) = orElse a (orElse b JNull)"
  by (cases "(a, JNull :: json)" rule: orElse.cases; cases "(b, JNull :: json)" rule: orElse.cases) auto

lemma matches_conv:
  assumes "matchesFilters E fmt idx cfg (templateOverride A) (runFilters A) = Inr b"
  shows "toNumber E (getp fmt ''width'') = Inr (fmtWidth E fmt)"
    and "toNumber E (getp fmt ''height'') = Inr (fmtHeight E fmt)"
    and "getTemplateRoot E fmt cfg (templateOverride A) = Inr (templateOf E A cfg fmt)"
    and "bannerFolderFor E outRoot (fst (resolveLangAndMotive fmt)) (snd (resolveLangAndMotive fmt))
           (fmtWidth E fmt) (fmtHeight E fmt) = Inr (artifactFolder E outRoot fmt)"
proof -
  from assms obtain x y l m tr where
    x: "toNumber E (getp fmt ''width'') = Inr x" and y: "toNumber E (getp fmt ''height'') = Inr y"
    and l: "jsString E (orElse (getp fmt ''language'') (orElse (getp fmt ''lang'') (JStr []))) = Inr l"
    and m: "jsString E (orElse (getp fmt ''motive'') (orElse (getp fmt ''motiveName'') (JStr []))) = Inr m"
    and tr: "getTemplateRoot E fmt cfg (templateOverride A) = Inr tr"
    by (auto simp: matchesFilters_def normalizeSize_def bindE_case split: if_splits sum.splits)
  show "toNumber E (getp fmt ''width'') = Inr (fmtWidth E fmt)"
    "toNumber E (getp fmt ''height'') = Inr (fmtHeight E fmt)"
    using x y by (simp_all add: toNumber_value)
  show "getTemplateRoot E fmt cfg (templateOverride A) = Inr (templateOf E A cfg fmt)"
    using tr by (simp add: templateOf_def)
  have "truthy (fst (resolveLangAndMotive fmt)) \<Longrightarrow> stringable (fst (resolveLangAndMotive fmt))"
    using l orElse_default [of "getp fmt ''language''" "getp fmt ''lang''" "JStr []"]
    by (simp add: resolveLangAndMotive_def jsString_Inr)
  moreover have "truthy (snd (resolveLangAndMotive fmt)) \<Longrightarrow> stringable (snd (resolveLangAndMotive fmt))"
    using m orElse_default [of "getp fmt ''motive''" "getp fmt ''motiveName''" "JStr []"]
    by (simp add: resolveLangAndMotive_def jsString_Inr)
  ultimately have "\<exists>p. bannerFolderFor E outRoot (fst (resolveLangAndMotive fmt))
      (snd (resolveLangAndMotive fmt)) (fmtWidth E fmt) (fmtHeight E fmt) = Inr p"
    by (cases "truthy (fst (resolveLangAndMotive fmt))";
        cases "truthy (snd (resolveLangAndMotive fmt))")
      (simp_all add: bannerFolderFor_def jsString_def)
  then show "bannerFolderFor E outRoot (fst (resolveLangAndMotive fmt)) (snd (resolveLangAndMotive fmt))
           (fmtWidth E fmt) (fmtHeight E fmt) = Inr (artifactFolder E outRoot fmt)"
    by (auto simp: artifactFolder_def)
qed

lemma survives_conv:
  assumes "survives E A cfg idx fmt"
  shows "matchesFilters E fmt idx cfg (templateOverride A) (runFilters A) = Inr True"
    and "toNumber E (getp fmt ''width'') = Inr (fmtWidth E fmt)"
    and "toNumber E (getp fmt ''height'') = Inr (fmtHeight E fmt)"
    and "isFinite (fmtWidth E fmt)" and "isFinite (fmtHeight E fmt)"
    and "getTemplateRoot E fmt cfg (templateOverride A) = Inr (templateOf E A cfg fmt)"
    and "bannerFolderFor E outRoot (fst (resolveLangAndMotive fmt)) (snd (resolveLangAndMotive fmt))
           (fmtWidth E fmt) (fmtHeight E fmt) = Inr (artifactFolder E outRoot fmt)"
proof -
  have m: "matchesFilters E fmt idx cfg (templateOverride A) (runFilters A) = Inr True"
    using assms by (simp add: survives_def)
  show "matchesFilters E fmt idx cfg (templateOverride A) (runFilters A) = Inr True" by (rule m)
  show "isFinite (fmtWidth E fmt)" "isFinite (fmtHeight E fmt)"
    using assms by (simp_all add: survives_def)
  show "toNumber E (getp fmt ''width'') = Inr (fmtWidth E fmt)"
    "toNumber E (getp fmt ''height'') = Inr (fmtHeight E fmt)"
    "getTemplateRoot E fmt cfg (templateOverride A) = Inr (templateOf E A cfg fmt)"
    "bannerFolderFor E outRoot (fst (resolveLangAndMotive fmt)) (snd (resolveLangAndMotive fmt))
           (fmtWidth E fmt) (fmtHeight E fmt) = Inr (artifactFolder E outRoot fmt)"
    by (rule matches_conv [OF m])+
qed

lemma processFormat_skip:
  assumes "survives E A cfg idx fmt"
    and "\<not> shouldProcessBanner (runMode A)
            (pathExists (fs w) (artifactFolder E outRoot fmt @ [''index.html'']))"
  shows "processFormat E A cfg campaign outRoot idx fmt (w, n) =
           Inr (w, n\<lparr>skippedCount := skippedCount n + 1\<rparr>)"
  using assms(2)
  by (simp add: processFormat_def survives_conv [OF assms(1)] Let_def)

lemma loopFormats_append:
  "loopFormats E A cfg c r idx (xs @ ys) wc =
     (case loopFormats E A cfg c r idx xs wc of
        (None, wc') \<Rightarrow> loopFormats E A cfg c r (idx + length xs) ys wc'
      | (Some e, wc') \<Rightarrow> (Some e, wc'))"
  by (induction xs arbitrary: idx wc) (auto split: sum.splits prod.splits option.splits)

lemma processFormat_invalid:
  assumes "matchesFilters E fmt idx cfg (templateOverride A) (runFilters A) = Inr True"
    and "\<not> isFinite (fmtWidth E fmt) \<or> \<not> isFinite (fmtHeight E fmt)"
  shows "processFormat E A cfg c r idx fmt wc = Inl (InvalidWidthHeight fmt)"
  using assms matches_conv(1,2) [OF assms(1)] by (auto simp: processFormat_def Let_def)

lemma processFormat_filtered:
  assumes "matchesFilters E fmt idx cfg (templateOverride A) (runFilters A) = Inr False"
  shows "processFormat E A cfg c r idx fmt (w, n) = Inr (w, n\<lparr>filteredOut := filteredOut n + 1\<rparr>)"
  using assms by (simp add: processFormat_def Let_def)

lemma bindE_assoc: "bindE (bindE m f) g = bindE m (\<lambda>x. bindE (f x) g)"
  by (cases m) auto

lemma bindE_if: "bindE (if b then x else y) g = (if b then bindE x g else bindE y g)"
  by simp

lemma processFormat_folder:
  assumes "survives E A cfg idx fmt"
  shows "processFormat E A cfg c outRoot idx fmt (w, n) =
     (let bf = artifactFolder E outRoot fmt;
          present = pathExists (fs w) (bf @ [''index.html''])
      in if \<not> shouldProcessBanner (runMode A) present
         then Inr (w, n\<lparr>skippedCount := skippedCount n + 1\<rparr>)
         else case templateAt A (snd (templateOf E A cfg fmt)) of
                None \<Rightarrow> Inl (TemplateNotFound (fst (templateOf E A cfg fmt)))
              | Some tn \<Rightarrow>
                  bindE (ensureDir bf (fs w)) (\<lambda>fs1.
                  case lookup fs1 bf of
                    Some (Dir es) \<Rightarrow>
                      bindE (folderStep E A cfg c idx fmt present tn es)
                        (finishStep E A c fmt bf present fs1 w n)
                  | _ \<Rightarrow> Inl IOError))"
  unfolding processFormat_def folderStep_def Let_def
  by (simp add: survives_conv [OF assms] finishStep_def Let_def bindE_assoc bindE_if
      split del: if_split cong: if_cong option.case_cong node.case_cong)

subsection \<open>Paths of the tree\<close>

lemma lookup_File: "lookup (File c) r = (if r = [] then Some (File c) else None)"
  by (cases r) auto

lemma lookup_empty: "lookup (Dir []) r = (if r = [] then Some (Dir []) else None)"
  by (cases r) auto

lemma lookup_append:
  "lookup t (p @ r) = (case lookup t p of None \<Rightarrow> None | Some m \<Rightarrow> lookup m r)"
proof (induction t p rule: lookup.induct)
  case (1 n)
  then show ?case by simp
next
  case (2 c s p)
  then show ?case by simp
next
  case (3 es s p)
  then show ?case by (cases "map_of es s") auto
qed

lemma ensureDir_existing: "lookup t p = Some (Dir es) \<Longrightarrow> ensureDir p t = Inr t"
proof (induction p t arbitrary: es rule: ensureDir.induct)
  case (1 p c)
  then show ?case by (cases p) auto
next
  case (2 es')
  then show ?case by simp
next
  case (3 s p es')
  from 3(2) obtain m where m: "map_of es' s = Some m" "lookup m p = Some (Dir es)"
    by (cases "map_of es' s") auto
  from 3(1) [of es] m have "ensureDir p m = Inr m" by simp
  then show ?case using m by (simp add: update_triv)
qed

lemma ensureDir_lookup:
  "ensureDir p t = Inr t' \<Longrightarrow>
   lookup t' p = (case lookup t p of None \<Rightarrow> Some (Dir []) | Some m \<Rightarrow> Some m)
   \<and> (\<exists>es. lookup t' p = Some (Dir es))"
proof (induction p t arbitrary: t' rule: ensureDir.induct)
  case (1 p c)
  then show ?case by simp
next
  case (2 es')
  then show ?case by auto
next
  case (3 s p es')
  let ?m = "case map_of es' s of None \<Rightarrow> Dir [] | Some n \<Rightarrow> n"
  from 3(2) obtain n' where n': "ensureDir p ?m = Inr n'" "t' = Dir (AList.update s n' es')"
    by (cases "ensureDir p ?m") auto
  from 3(1) [OF n'(1)] have ih:
    "lookup n' p = (case lookup ?m p of None \<Rightarrow> Some (Dir []) | Some m \<Rightarrow> Some m)"
    "\<exists>es. lookup n' p = Some (Dir es)" by blast+
  show ?case
  proof (cases "map_of es' s")
    case None
    then show ?thesis using ih n'(2) by (simp add: update_conv' lookup_empty)
  next
    case (Some a)
    then show ?thesis using ih n'(2) by (simp add: update_conv')
  qed
qed

lemma putAt_lookup: "lookup t p = Some m \<Longrightarrow> lookup (putAt p n t) (p @ r) = lookup n r"
proof (induction p n t arbitrary: m rule: putAt.induct)
  case (1 n t)
  then show ?case by simp
next
  case (2 s p n c)
  then show ?case by simp
next
  case (3 s p n es)
  then show ?case by (cases "map_of es s") (auto simp: update_conv')
qed

lemma putAt_same: "lookup t p = Some n \<Longrightarrow> putAt p n t = t"
proof (induction p n t rule: putAt.induct)
  case (1 n t)
  then show ?case by simp
next
  case (2 s p n c)
  then show ?case by simp
next
  case (3 s p n es)
  then show ?case by (cases "map_of es s") (auto simp: update_triv)
qed

lemma putAt_frame:
  "\<not> prefix p q \<Longrightarrow> \<not> prefix q p \<Longrightarrow> lookup (putAt p n t) q = lookup t q"
proof (induction p n t arbitrary: q rule: putAt.induct)
  case (1 n t)
  then show ?case by simp
next
  case (2 s p n c)
  then show ?case by simp
next
  case (3 s p n es)
  from 3(3) obtain s' q' where q: "q = s' # q'" by (cases q) auto
  show ?case
  proof (cases "map_of es s")
    case None
    then show ?thesis by simp
  next
    case (Some c)
    show ?thesis
    proof (cases "s' = s")
      case True
      then have "\<not> prefix p q'" "\<not> prefix q' p" using 3(2,3) q by auto
      from 3(1) [OF Some this] show ?thesis using Some q True by (simp add: update_conv')
    next
      case False
      then show ?thesis using Some q by (simp add: update_conv')
    qed
  qed
qed

lemma ensureDir_frame:
  "ensureDir p t = Inr t' \<Longrightarrow> \<not> prefix p q \<Longrightarrow> \<not> prefix q p \<Longrightarrow> lookup t' q = lookup t q"
proof (induction p t arbitrary: q t' rule: ensureDir.induct)
  case (1 p c)
  then show ?case by simp
next
  case (2 es')
  then show ?case by simp
next
  case (3 s p es')
  let ?m = "case map_of es' s of None \<Rightarrow> Dir [] | Some n \<Rightarrow> n"
  from 3(2) obtain n' where n': "ensureDir p ?m = Inr n'" "t' = Dir (AList.update s n' es')"
    by (cases "ensureDir p ?m") auto
  from 3(4) obtain s' q' where q: "q = s' # q'" by (cases q) auto
  show ?case
  proof (cases "s' = s")
    case True
    then have pq: "\<not> prefix p q'" "\<not> prefix q' p" using 3(3,4) q by auto
    then have ne: "q' \<noteq> []" by auto
    have l: "lookup n' q' = lookup ?m q'" by (rule 3(1) [OF n'(1) pq])
    show ?thesis using l n'(2) q True ne
      by (cases "map_of es' s") (auto simp: update_conv' lookup_empty)
  next
    case False
    then show ?thesis using n'(2) q by (simp add: update_conv')
  qed
qed

lemma existing_folder:
  assumes "lookup (fs w) bf = Some (Dir es)" and "map_of es ''index.html'' \<noteq> None"
  shows "pathExists (fs w) (bf @ [''index.html''])" and "ensureDir bf (fs w) = Inr (fs w)"
  using assms by (auto simp: pathExists_def lookup_append ensureDir_existing)

lemma processFormat_ready:
  assumes "survives E A cfg idx fmt"
    and "present = pathExists (fs w) (artifactFolder E outRoot fmt @ [''index.html''])"
    and "shouldProcessBanner (runMode A) present"
    and "templateAt A (snd (templateOf E A cfg fmt)) = Some tn"
    and "ensureDir (artifactFolder E outRoot fmt) (fs w) = Inr fs1"
    and "lookup fs1 (artifactFolder E outRoot fmt) = Some (Dir es)"
  shows "processFormat E A cfg c outRoot idx fmt (w, n) =
     bindE (folderStep E A cfg c idx fmt present tn es)
       (finishStep E A c fmt (artifactFolder E outRoot fmt) present fs1 w n)"
  unfolding processFormat_folder [OF assms(1)] Let_def
  using assms(2-6) by simp

lemma processFormat_existing:
  assumes "survives E A cfg idx fmt"
    and "lookup (fs w) (artifactFolder E outRoot fmt) = Some (Dir es)"
    and "map_of es ''index.html'' \<noteq> None"
    and "shouldProcessBanner (runMode A) True"
  shows "processFormat E A cfg c outRoot idx fmt (w, n) =
     (case templateAt A (snd (templateOf E A cfg fmt)) of
        None \<Rightarrow> Inl (TemplateNotFound (fst (templateOf E A cfg fmt)))
      | Some tn \<Rightarrow>
          bindE (folderStep E A cfg c idx fmt True tn es)
            (finishStep E A c fmt (artifactFolder E outRoot fmt) True (fs w) w n))"
proof -
  have p: "pathExists (fs w) (artifactFolder E outRoot fmt @ [''index.html'']) = True"
    "ensureDir (artifactFolder E outRoot fmt) (fs w) = Inr (fs w)"
    using assms(2,3) existing_folder [of w "artifactFolder E outRoot fmt" es] by auto
  show ?thesis
    unfolding processFormat_folder [OF assms(1)] Let_def p
    using assms(2,4) by (simp split: option.splits)
qed

text \<open>The work in the folder, once the template is copied and the assets are listed.\<close>

lemma folderStep_listed:
  assumes "ensureTemplateOnCreate (snd (templateOf E A cfg fmt)) tn es present = Inr es1"
    and "ensureAssetsDir es1 = Inr es2" and "readAssets es2 = Inr cur"
  shows "folderStep E A cfg c idx fmt present tn es =
     (if \<not> shouldRenderBanner (runMode A) present (readGenState E es2) cur (stableStringify E fmt)
      then Inr (es2, None)
      else bindE (parseKb E (getp fmt ''size'')) (\<lambda>maxBytes.
           bindE (renderFromMustacheFiles E
                    (renderData E A cfg fmt c (fst (resolveLangAndMotive fmt))
                       (snd (resolveLangAndMotive fmt)) (fmtWidth E fmt) (fmtHeight E fmt) maxBytes cur
                       (fst (templateOf E A cfg fmt))) es2) (\<lambda>es3.
           bindE (writeGenState E es3
                    (genState cur (stableStringify E fmt) (fst (templateOf E A cfg fmt)) (clock A idx)))
             (\<lambda>es4. Inr (es4, Some maxBytes)))))"
  using assms by (simp add: folderStep_def Let_def)

subsection \<open>Modes\<close>

lemma demo_survives [demo_eval]:
  "runFilters A = noFilters \<Longrightarrow> templateOverride A = None \<Longrightarrow>
   survives demoEnv A cfg idx exampleFmt"
  by (simp add: survives_def demo_eval)

lemma demo_artifactFolder [demo_eval]:
  "artifactFolder demoEnv demoRoot exampleFmt = [''work'', ''src'', ''c'', ''en'', ''300x250'']"
  by (simp add: artifactFolder_def resolveLangAndMotive_def demo_eval)

lemma demo_present [demo_eval]:
  "pathExists (fs demoWorld1) [''work'', ''src'', ''c'', ''en'', ''300x250'', ''index.html'']"
  by (simp add: pathExists_def demoWorld1_def demoTree_def demoFolderEntries_def)

text \<open>
  C1. Mode exclusivity. In create-only mode an artifact that exists is neither processed
  nor rendered, and in update mode a missing artifact is not processed: the loop body
  counts the format as skipped and leaves the state as it is. In incremental mode every
  format is processed. Once the folder is there, the template is copied if the artifact was
  missing, the assets directory exists and the asset names are listed, the loop body
  renders iff the artifact was missing, or no state is read from the folder, or the asset
  list persisted in that state is not the list of asset names, or the persisted
  fingerprint is not the fingerprint of the format: it then parses the budget, renders the
  folder, writes the state, packages when asked to, and counts the format as processed,
  and as created or updated; otherwise it counts the format as skipped and renders
  nothing.
\<close>

theorem mode_exclusivity:
  "shouldProcessBanner CreateOnly True = False
   \<and> shouldRenderBanner CreateOnly True prev af sig = False
   \<and> shouldProcessBanner Update False = False
   \<and> shouldProcessBanner Incremental present = True
   \<and> shouldRenderBanner Incremental present prev af sig =
       (\<not> present \<or> prev = None \<or> getq prev ''assetsFiles'' \<noteq> Some (JArr (map JStr af))
        \<or> getq prev ''fmtSig'' \<noteq> Some (JStr sig))
   \<and> (survives E A cfg idx fmt \<and>
        (runMode A = CreateOnly \<and> pathExists (fs w) (artifactFolder E outRoot fmt @ [''index.html''])
         \<or> runMode A = Update \<and> \<not> pathExists (fs w) (artifactFolder E outRoot fmt @ [''index.html'']))
      \<longrightarrow> processFormat E A cfg campaign outRoot idx fmt (w, n) =
            Inr (w, n\<lparr>skippedCount := skippedCount n + 1\<rparr>))
   \<and> (runMode A = Incremental \<and> survives E A cfg idx fmt
        \<and> exists = pathExists (fs w) (artifactFolder E outRoot fmt @ [''index.html''])
        \<and> templateAt A (snd (templateOf E A cfg fmt)) = Some tn
        \<and> ensureDir (artifactFolder E outRoot fmt) (fs w) = Inr fs1
        \<and> lookup fs1 (artifactFolder E outRoot fmt) = Some (Dir es)
        \<and> ensureTemplateOnCreate (snd (templateOf E A cfg fmt)) tn es exists = Inr es1
        \<and> ensureAssetsDir es1 = Inr es2 \<and> readAssets es2 = Inr cur
      \<longrightarrow> processFormat E A cfg campaign outRoot idx fmt (w, n) =
            (if \<not> exists \<or> readGenState E es2 = None
                \<or> getq (readGenState E es2) ''assetsFiles'' \<noteq> Some (JArr (map JStr cur))
                \<or> getq (readGenState E es2) ''fmtSig'' \<noteq> Some (JStr (stableStringify E fmt))
             then
               bindE (parseKb E (getp fmt ''size'')) (\<lambda>maxBytes.
               bindE (renderFromMustacheFiles E
                        (renderData E A cfg fmt campaign (fst (resolveLangAndMotive fmt))
                           (snd (resolveLangAndMotive fmt)) (fmtWidth E fmt) (fmtHeight E fmt)
                           maxBytes cur (fst (templateOf E A cfg fmt))) es2) (\<lambda>es3.
               bindE (writeGenState E es3
                        (genState cur (stableStringify E fmt) (fst (templateOf E A cfg fmt))
                           (clock A idx))) (\<lambda>es4.
               bindE (if shouldZip A
                      then bindE (makeZipName E campaign (fst (resolveLangAndMotive fmt))
                                    (snd (resolveLangAndMotive fmt)) (fmtWidth E fmt) (fmtHeight E fmt))
                             (\<lambda>zipName. Inr (zipStep E zipName maxBytes es4
                                              (w\<lparr>fs := putAt (artifactFolder E outRoot fmt) (Dir es4) fs1\<rparr>)))
                      else Inr (w\<lparr>fs := putAt (artifactFolder E outRoot fmt) (Dir es4) fs1\<rparr>)) (\<lambda>w2.
               Inr (w2, n\<lparr>processed := processed n + 1,
                            created := created n + (if exists then 0 else 1),
                            updated := updated n + (if exists then 1 else 0)\<rparr>)))))
             else Inr (w\<lparr>fs := putAt (artifactFolder E outRoot fmt) (Dir es2) fs1\<rparr>,
                       n\<lparr>skippedCount := skippedCount n + 1\<rparr>)))"
proof -
  have 1: "survives E A cfg idx fmt \<and>
        (runMode A = CreateOnly \<and> pathExists (fs w) (artifactFolder E outRoot fmt @ [''index.html''])
         \<or> runMode A = Update \<and> \<not> pathExists (fs w) (artifactFolder E outRoot fmt @ [''index.html'']))
      \<longrightarrow> processFormat E A cfg campaign outRoot idx fmt (w, n) =
            Inr (w, n\<lparr>skippedCount := skippedCount n + 1\<rparr>)"
    using processFormat_skip [of E A cfg idx fmt w outRoot campaign n]
    by (auto simp: shouldProcessBanner_def)
  have 2: "processFormat E A cfg campaign outRoot idx fmt (w, n) =
            (if \<not> exists \<or> readGenState E es2 = None
                \<or> getq (readGenState E es2) ''assetsFiles'' \<noteq> Some (JArr (map JStr cur))
                \<or> getq (readGenState E es2) ''fmtSig'' \<noteq> Some (JStr (stableStringify E fmt))
             then
               bindE (parseKb E (getp fmt ''size'')) (\<lambda>maxBytes.
               bindE (renderFromMustacheFiles E
                        (renderData E A cfg fmt campaign (fst (resolveLangAndMotive fmt))
                           (snd (resolveLangAndMotive fmt)) (fmtWidth E fmt) (fmtHeight E fmt)
                           maxBytes cur (fst (templateOf E A cfg fmt))) es2) (\<lambda>es3.
               bindE (writeGenState E es3
                        (genState cur (stableStringify E fmt) (fst (templateOf E A cfg fmt))
                           (clock A idx))) (\<lambda>es4.
               bindE (if shouldZip A
                      then bindE (makeZipName E campaign (fst (resolveLangAndMotive fmt))
                                    (snd (resolveLangAndMotive fmt)) (fmtWidth E fmt) (fmtHeight E fmt))
                             (\<lambda>zipName. Inr (zipStep E zipName maxBytes es4
                                              (w\<lparr>fs := putAt (artifactFolder E outRoot fmt) (Dir es4) fs1\<rparr>)))
                      else Inr (w\<lparr>fs := putAt (artifactFolder E outRoot fmt) (Dir es4) fs1\<rparr>)) (\<lambda>w2.
               Inr (w2, n\<lparr>processed := processed n + 1,
                            created := created n + (if exists then 0 else 1),
                            updated := updated n + (if exists then 1 else 0)\<rparr>)))))
             else Inr (w\<lparr>fs := putAt (artifactFolder E outRoot fmt) (Dir es2) fs1\<rparr>,
                       n\<lparr>skippedCount := skippedCount n + 1\<rparr>))"
    if h: "runMode A = Incremental \<and> survives E A cfg idx fmt
        \<and> exists = pathExists (fs w) (artifactFolder E outRoot fmt @ [''index.html''])
        \<and> templateAt A (snd (templateOf E A cfg fmt)) = Some tn
        \<and> ensureDir (artifactFolder E outRoot fmt) (fs w) = Inr fs1
        \<and> lookup fs1 (artifactFolder E outRoot fmt) = Some (Dir es)
        \<and> ensureTemplateOnCreate (snd (templateOf E A cfg fmt)) tn es exists = Inr es1
        \<and> ensureAssetsDir es1 = Inr es2 \<and> readAssets es2 = Inr cur"
  proof -
    have r: "processFormat E A cfg campaign outRoot idx fmt (w, n) =
       bindE (folderStep E A cfg campaign idx fmt exists tn es)
         (finishStep E A campaign fmt (artifactFolder E outRoot fmt) exists fs1 w n)"
    proof (rule processFormat_ready)
      show "survives E A cfg idx fmt" using h by blast
      show "exists = pathExists (fs w) (artifactFolder E outRoot fmt @ [''index.html''])"
        using h by blast
      show "shouldProcessBanner (runMode A) exists" using h by (simp add: shouldProcessBanner_def)
      show "templateAt A (snd (templateOf E A cfg fmt)) = Some tn" using h by blast
      show "ensureDir (artifactFolder E outRoot fmt) (fs w) = Inr fs1" using h by blast
      show "lookup fs1 (artifactFolder E outRoot fmt) = Some (Dir es)" using h by blast
    qed
    have f: "folderStep E A cfg campaign idx fmt exists tn es =
       (if \<not> shouldRenderBanner Incremental exists (readGenState E es2) cur (stableStringify E fmt)
        then Inr (es2, None)
        else bindE (parseKb E (getp fmt ''size'')) (\<lambda>maxBytes.
             bindE (renderFromMustacheFiles E
                      (renderData E A cfg fmt campaign (fst (resolveLangAndMotive fmt))
                         (snd (resolveLangAndMotive fmt)) (fmtWidth E fmt) (fmtHeight E fmt) maxBytes cur
                         (fst (templateOf E A cfg fmt))) es2) (\<lambda>es3.
             bindE (writeGenState E es3
                      (genState cur (stableStringify E fmt) (fst (templateOf E A cfg fmt)) (clock A idx)))
               (\<lambda>es4. Inr (es4, Some maxBytes)))))"
    proof -
      have m: "runMode A = Incremental" using h by blast
      have e1: "ensureTemplateOnCreate (snd (templateOf E A cfg fmt)) tn es exists = Inr es1"
        using h by blast
      have e2: "ensureAssetsDir es1 = Inr es2" using h by blast
      have e3: "readAssets es2 = Inr cur" using h by blast
      show ?thesis using folderStep_listed [OF e1 e2 e3, of campaign idx] unfolding m .
    qed
    show ?thesis
    proof (cases "shouldRenderBanner Incremental exists (readGenState E es2) cur (stableStringify E fmt)")
      case True
      then have c: "(\<not> exists \<or> readGenState E es2 = None
                \<or> getq (readGenState E es2) ''assetsFiles'' \<noteq> Some (JArr (map JStr cur))
                \<or> getq (readGenState E es2) ''fmtSig'' \<noteq> Some (JStr (stableStringify E fmt))) = True"
        by (simp add: shouldRender_incremental)
      show ?thesis
        unfolding r f c using True
        by (simp add: finishStep_def Let_def bindE_assoc bindE_if split del: if_split cong: if_cong)
    next
      case False
      then have c: "(\<not> exists \<or> readGenState E es2 = None
                \<or> getq (readGenState E es2) ''assetsFiles'' \<noteq> Some (JArr (map JStr cur))
                \<or> getq (readGenState E es2) ''fmtSig'' \<noteq> Some (JStr (stableStringify E fmt))) = False"
        by (simp add: shouldRender_incremental)
      show ?thesis
        unfolding r f c using False by (simp add: finishStep_def Let_def)
    qed
  qed
  have 3: "shouldProcessBanner CreateOnly True = False
   \<and> shouldRenderBanner CreateOnly True prev af sig = False
   \<and> shouldProcessBanner Update False = False
   \<and> shouldProcessBanner Incremental present = True
   \<and> shouldRenderBanner Incremental present prev af sig =
       (\<not> present \<or> prev = None \<or> getq prev ''assetsFiles'' \<noteq> Some (JArr (map JStr af))
        \<or> getq prev ''fmtSig'' \<noteq> Some (JStr sig))"
    using shouldRender_incremental [of present prev af sig]
    by (simp add: shouldProcessBanner_def shouldRenderBanner_def)
  show ?thesis
    by (intro conjI impI 2) (use 1 3 in blast)+
qed

lemma demo_template [demo_eval]:
  "templateAt demoArgs [''app'', ''templates'', ''standard''] = Some demoTemplate"
  "templateOverride demoArgs = None" "runFilters demoArgs = noFilters" "shouldZip demoArgs"
  "runMode demoArgs = Incremental" "clicktagOverride demoArgs = None"
  "clock demoArgs i = ''2026-01-01T00:00:00.000Z''"
  by (simp_all add: demoArgs_def)

lemma demo_fresh_folder:
  "ensureDir [''work'', ''src'', ''c'', ''en'', ''300x250''] (fs emptyWorld) = Inr (demoTree [])"
  "lookup (demoTree []) [''work'', ''src'', ''c'', ''en'', ''300x250''] = Some (Dir [])"
  "\<not> pathExists (fs emptyWorld) [''work'', ''src'', ''c'', ''en'', ''300x250'', ''index.html'']"
  "ensureTemplateOnCreate [''app'', ''templates'', ''standard''] demoTemplate [] False =
     Inr [(''index.html.mustache'', File (JStr ''<html>{{WIDTH}}x{{HEIGHT}}</html>'')),
          (''main.js'', File (JStr ''tl.play();'')), (''assets'', Dir [])]"
  by (simp_all add: emptyWorld_def demoTree_def pathExists_def ensureTemplateOnCreate_def
      demoTemplate_def demo_eval)

lemma demo_settled_folder:
  "ensureDir [''work'', ''src'', ''c'', ''en'', ''300x250''] (fs demoWorld1) = Inr (fs demoWorld1)"
  "lookup (fs demoWorld1) [''work'', ''src'', ''c'', ''en'', ''300x250''] = Some (Dir demoFolderEntries)"
  "ensureAssetsDir demoFolderEntries = Inr demoFolderEntries"
  "readAssets demoFolderEntries = Inr []"
  "readGenState demoEnv demoFolderEntries =
     Some (genState [] (stableStringify demoEnv exampleFmt) ''standard'' ''2026-01-01T00:00:00.000Z'')"
  by (simp_all add: demoWorld1_def demoTree_def demoFolderEntries_def ensureAssetsDir_def
      readAssets_def readGenState_def demo_eval demoParse_def genState_def)

theorem mode_exclusivity_witness:
  "survives demoEnv (demoArgs\<lparr>runMode := CreateOnly\<rparr>) demoCfg 0 exampleFmt
   \<and> pathExists (fs demoWorld1) (artifactFolder demoEnv demoRoot exampleFmt @ [''index.html''])
   \<and> processFormat demoEnv (demoArgs\<lparr>runMode := CreateOnly\<rparr>) demoCfg (JStr ''c'') demoRoot 0
        exampleFmt (demoWorld1, noCounts)
       = Inr (demoWorld1, noCounts\<lparr>skippedCount := skippedCount noCounts + 1\<rparr>)
   \<and> shouldRenderBanner Incremental True
        (Some (genState [''a.png''] ''sig'' ''standard'' ''t'')) [''a.png'', ''b.png''] ''sig''
   \<and> \<not> shouldRenderBanner Incremental True
        (Some (genState [''a.png''] ''sig'' ''standard'' ''t'')) [''a.png''] ''sig''
   \<and> runMode demoArgs = Incremental \<and> survives demoEnv demoArgs demoCfg 0 exampleFmt
   \<and> templateAt demoArgs (snd (templateOf demoEnv demoArgs demoCfg exampleFmt)) = Some demoTemplate
   \<and> \<not> pathExists (fs emptyWorld) (artifactFolder demoEnv demoRoot exampleFmt @ [''index.html''])
   \<and> ensureDir (artifactFolder demoEnv demoRoot exampleFmt) (fs emptyWorld) = Inr (demoTree [])
   \<and> lookup (demoTree []) (artifactFolder demoEnv demoRoot exampleFmt) = Some (Dir [])
   \<and> processFormat demoEnv demoArgs demoCfg (JStr ''c'') demoRoot 0 exampleFmt (emptyWorld, noCounts)
       = Inr (demoWorld1, noCounts\<lparr>processed := 1, created := 1\<rparr>)
   \<and> lookup (fs demoWorld1) (artifactFolder demoEnv demoRoot exampleFmt) = Some (Dir demoFolderEntries)
   \<and> readGenState demoEnv demoFolderEntries =
       Some (genState [] (stableStringify demoEnv exampleFmt) ''standard'' ''2026-01-01T00:00:00.000Z'')
   \<and> processFormat demoEnv demoArgs demoCfg (JStr ''c'') demoRoot 0 exampleFmt (demoWorld1, noCounts)
       = Inr (demoWorld1, noCounts\<lparr>skippedCount := 1\<rparr>)"
proof -
  have s: "survives demoEnv (demoArgs\<lparr>runMode := CreateOnly\<rparr>) demoCfg 0 exampleFmt"
    by (rule demo_survives) (simp_all add: demoArgs_def)
  have s': "survives demoEnv demoArgs demoCfg 0 exampleFmt"
    by (rule demo_survives) (simp_all add: demoArgs_def)
  have p: "pathExists (fs demoWorld1) (artifactFolder demoEnv demoRoot exampleFmt @ [''index.html''])"
    by (simp add: demo_eval)
  have m: "runMode (demoArgs\<lparr>runMode := CreateOnly\<rparr>) = CreateOnly" by simp
  have t: "templateAt demoArgs (snd (templateOf demoEnv demoArgs demoCfg exampleFmt)) = Some demoTemplate"
    by (simp add: demo_eval)
  note inst = mode_exclusivity [where E = demoEnv and cfg = demoCfg and idx = 0
        and fmt = exampleFmt and outRoot = demoRoot and campaign = "JStr ''c''" and n = noCounts
        and prev = "Some (genState [''a.png''] ''sig'' ''standard'' ''t'')" and sig = "''sig''"
        and present = True and tn = demoTemplate and cur = "[]"]
  have a: "processFormat demoEnv (demoArgs\<lparr>runMode := CreateOnly\<rparr>) demoCfg (JStr ''c'') demoRoot 0
        exampleFmt (demoWorld1, noCounts)
       = Inr (demoWorld1, noCounts\<lparr>skippedCount := skippedCount noCounts + 1\<rparr>)"
    using inst [where A = "demoArgs\<lparr>runMode := CreateOnly\<rparr>" and w = demoWorld1] s p m by blast
  have b: "shouldRenderBanner Incremental True
        (Some (genState [''a.png''] ''sig'' ''standard'' ''t'')) [''a.png'', ''b.png''] ''sig''"
    using inst [where af = "[''a.png'', ''b.png'']"] by (simp add: genState_def)
  have c: "\<not> shouldRenderBanner Incremental True
        (Some (genState [''a.png''] ''sig'' ''standard'' ''t'')) [''a.png''] ''sig''"
    using inst [where af = "[''a.png'']"] by (simp add: genState_def)
  have d: "processFormat demoEnv demoArgs demoCfg (JStr ''c'') demoRoot 0 exampleFmt (emptyWorld, noCounts)
       = Inr (demoWorld1, noCounts\<lparr>processed := 1, created := 1\<rparr>)"
    using inst [where A = demoArgs and w = emptyWorld and exists = False and ?fs1.0 = "demoTree []"
        and es = "[]"
        and ?es1.0 = "[(''index.html.mustache'', File (JStr ''<html>{{WIDTH}}x{{HEIGHT}}</html>'')),
          (''main.js'', File (JStr ''tl.play();'')), (''assets'', Dir [])]"
        and ?es2.0 = "[(''index.html.mustache'', File (JStr ''<html>{{WIDTH}}x{{HEIGHT}}</html>'')),
          (''main.js'', File (JStr ''tl.play();'')), (''assets'', Dir [])]"]
      s' t demo_fresh_folder
    by (simp add: demo_eval resolveLangAndMotive_def demoCfg_def ensureAssetsDir_def readAssets_def
        renderFromMustacheFiles_def endsWith_def writeGenState_def zipStep_def demoWorld1_def
        demoTree_def demoFolderEntries_def checkZipSize_def falsyNum_def noCounts_def
        emptyWorld_def demo_zip [unfolded demoFolderEntries_def])
  have e: "processFormat demoEnv demoArgs demoCfg (JStr ''c'') demoRoot 0 exampleFmt (demoWorld1, noCounts)
       = Inr (demoWorld1, noCounts\<lparr>skippedCount := 1\<rparr>)"
    using inst [where A = demoArgs and w = demoWorld1 and exists = True and ?fs1.0 = "fs demoWorld1"
        and es = demoFolderEntries and ?es1.0 = demoFolderEntries and ?es2.0 = demoFolderEntries]
      s' t p demo_settled_folder
    by (simp add: demo_eval ensureTemplateOnCreate_def genState_def putAt_same noCounts_def)
  show ?thesis
    using s s' p a b c d e t demo_fresh_folder demo_settled_folder by (simp add: demo_eval)
qed

subsection \<open>Width and height\<close>

lemma badFmt_fields [demo_eval]:
  "badFmt \<noteq> JNull"
  "fmtWidth demoEnv badFmt = NaN"
  "normalizeSize demoEnv (getp badFmt ''width'') (getp badFmt ''height'') = Inr []"
  by (simp_all add: badFmt_def fmtWidth_def normalizeSize_def demo_eval demoStrToNum_def isDigit_def
      trim_def isSpace_def)

lemma demo_cfgBad [demo_eval]:
  "demoCfgBad \<noteq> JNull"
  "readFormatsFromCfg demoCfgBad = [exampleFmt, badFmt, exampleFmt]"
  "campaignOf demoArgs demoCfgBad = JStr ''c''"
  "getp demoCfgBad ''brand'' = None"
  "outRootOf demoArgs ''c'' = demoRoot"
  by (simp_all add: demoCfgBad_def readFormatsFromCfg_def campaignOf_def demoArgs_def
      outRootOf_def path_resolve_def path_join_def normStep_def demoRoot_def)

lemma demo_loop1:
  "getp cfg ''brand'' = None \<Longrightarrow>
   loopFormats demoEnv demoArgs cfg (JStr ''c'') demoRoot 0 [exampleFmt] (emptyWorld, noCounts) =
     (None, demoWorld1, noCounts\<lparr>processed := 1, created := 1\<rparr>)"
  by (simp add: demo_step_create noCounts_def)

lemma badFmt_fields2 [demo_eval]:
  "getp badFmt ''brand'' = None" "getp badFmt ''language'' = None" "getp badFmt ''lang'' = None"
  "getp badFmt ''motive'' = None" "getp badFmt ''motiveName'' = None"
  by (simp_all add: badFmt_def)

lemma badFmt_matches:
  "getp cfg ''brand'' = None \<Longrightarrow>
   matchesFilters demoEnv badFmt idx cfg (templateOverride demoArgs) (runFilters demoArgs) = Inr True"
  by (simp add: matchesFilters_def getTemplateRoot_def jsString_def demoArgs_def
      noFilters_def demo_eval Let_def)

text \<open>
  C5, as stated, fails. The width and height of a format are checked inside the loop, when
  the format is reached: with the formats \<open>[exampleFmt, badFmt, exampleFmt]\<close> the run ends
  with the error for \<open>badFmt\<close> after the first format has been generated; and a format with
  a non-numeric width that the size filter rejects does not abort the run at all.
\<close>

theorem invalid_size_counterexample:
  "generateFromFormatsJson demoEnv demoArgs demoCfgBad emptyWorld =
     (Some (InvalidWidthHeight badFmt), demoWorld1, noCounts\<lparr>processed := 1, created := 1\<rparr>)
   \<and> pathExists (fs demoWorld1) [''work'', ''src'', ''c'', ''en'', ''300x250'', ''index.html'']
   \<and> generateFromFormatsJson demoEnv (demoArgs\<lparr>runFilters := exampleFilters\<rparr>) (JArr [badFmt])
        emptyWorld = (None, emptyWorld, noCounts\<lparr>filteredOut := 1\<rparr>)"
proof -
  have 1: "loopFormats demoEnv demoArgs demoCfgBad (JStr ''c'') demoRoot 0
             ([exampleFmt] @ badFmt # [exampleFmt]) (emptyWorld, noCounts) =
           (Some (InvalidWidthHeight badFmt), demoWorld1, noCounts\<lparr>processed := 1, created := 1\<rparr>)"
    unfolding loopFormats_append
    by (simp add: demo_step_create demo_eval processFormat_invalid [OF badFmt_matches] noCounts_def)
  have 2: "matchesFilters demoEnv badFmt 0 (JArr [badFmt])
             (templateOverride (demoArgs\<lparr>runFilters := exampleFilters\<rparr>))
             (runFilters (demoArgs\<lparr>runFilters := exampleFilters\<rparr>)) = Inr False"
    by (simp add: matchesFilters_def getTemplateRoot_def jsString_def exampleFilters_def
        noFilters_def demo_eval Let_def)
  have 3: "generateFromFormatsJson demoEnv (demoArgs\<lparr>runFilters := exampleFilters\<rparr>) (JArr [badFmt])
        emptyWorld = (None, emptyWorld, noCounts\<lparr>filteredOut := 1\<rparr>)"
    by (simp add: generateFromFormatsJson_def readFormatsFromCfg_def campaignOf_def demoArgs_def
        processFormat_filtered [OF 2, unfolded demoArgs_def, simplified] noCounts_def)
  show ?thesis
    using 1 3 by (simp add: generateFromFormatsJson_def demo_eval)
qed

text \<open>
  C5, amended. The run aborts with the width/height error at the first format that passes
  the filters and whose width or height does not convert to a finite number: the formats
  before it have been processed and their results stay, the format itself and the ones
  after it are not processed. A format that the filters reject is counted as filtered out
  whatever its width and height.
\<close>

theorem invalid_size_aborts:
  "(loopFormats E A cfg c r idx pre wc = (None, wc')
      \<and> matchesFilters E fmt (idx + length pre) cfg (templateOverride A) (runFilters A) = Inr True
      \<and> (\<not> isFinite (fmtWidth E fmt) \<or> \<not> isFinite (fmtHeight E fmt))
    \<longrightarrow> loopFormats E A cfg c r idx (pre @ fmt # post) wc = (Some (InvalidWidthHeight fmt), wc'))
   \<and> (matchesFilters E fmt idx cfg (templateOverride A) (runFilters A) = Inr False
    \<longrightarrow> processFormat E A cfg c r idx fmt (w, n) = Inr (w, n\<lparr>filteredOut := filteredOut n + 1\<rparr>))"
proof (intro conjI impI)
  assume a: "loopFormats E A cfg c r idx pre wc = (None, wc')
      \<and> matchesFilters E fmt (idx + length pre) cfg (templateOverride A) (runFilters A) = Inr True
      \<and> (\<not> isFinite (fmtWidth E fmt) \<or> \<not> isFinite (fmtHeight E fmt))"
  then have "processFormat E A cfg c r (idx + length pre) fmt wc' = Inl (InvalidWidthHeight fmt)"
    by (intro processFormat_invalid) auto
  then show "loopFormats E A cfg c r idx (pre @ fmt # post) wc = (Some (InvalidWidthHeight fmt), wc')"
    using a by (simp add: loopFormats_append)
next
  assume "matchesFilters E fmt idx cfg (templateOverride A) (runFilters A) = Inr False"
  then show "processFormat E A cfg c r idx fmt (w, n) = Inr (w, n\<lparr>filteredOut := filteredOut n + 1\<rparr>)"
    by (rule processFormat_filtered)
qed

theorem invalid_size_aborts_witness:
  "loopFormats demoEnv demoArgs demoCfgBad (JStr ''c'') demoRoot 0 [exampleFmt] (emptyWorld, noCounts)
     = (None, demoWorld1, noCounts\<lparr>processed := 1, created := 1\<rparr>)
   \<and> matchesFilters demoEnv badFmt (0 + length [exampleFmt]) demoCfgBad (templateOverride demoArgs)
       (runFilters demoArgs) = Inr True
   \<and> \<not> isFinite (fmtWidth demoEnv badFmt)
   \<and> loopFormats demoEnv demoArgs demoCfgBad (JStr ''c'') demoRoot 0
       ([exampleFmt] @ badFmt # [exampleFmt]) (emptyWorld, noCounts)
     = (Some (InvalidWidthHeight badFmt), demoWorld1, noCounts\<lparr>processed := 1, created := 1\<rparr>)"
proof -
  have nf: "\<not> isFinite (fmtWidth demoEnv badFmt)"
    by (simp add: demo_eval)
  show ?thesis
    using invalid_size_aborts [of demoEnv demoArgs demoCfgBad "JStr ''c''" demoRoot 0
        "[exampleFmt]" "(emptyWorld, noCounts)"
        "(demoWorld1, noCounts\<lparr>processed := 1, created := 1\<rparr>)" badFmt "[exampleFmt]"]
      demo_loop1 [of demoCfgBad] badFmt_matches [of demoCfgBad "0 + length [exampleFmt]"] nf
    by (simp add: demo_eval del: loopFormats.simps)
qed

subsection \<open>Template copy\<close>

lemma str_includes_append: "str_includes s t \<Longrightarrow> str_includes (u @ s) t"
  by (induction u) auto

lemma str_includes_prefix: "prefix t s \<Longrightarrow> str_includes s t"
  by (cases s) auto

lemma str_includes_assets: "str_includes (''/assets/'' @ s) ''/assets/''"
  by (rule str_includes_prefix) simp

lemma path_str_assets:
  "''assets'' \<in> set (butlast p) \<Longrightarrow> str_includes (path_str p) ''/assets/''"
proof (induction p)
  case Nil
  then show ?case by simp
next
  case (Cons s p)
  show ?case
  proof (cases "p = []")
    case True
    with Cons.prems show ?thesis by simp
  next
    case False
    then obtain t p' where p: "p = t # p'" by (cases p) auto
    show ?thesis
    proof (cases "s = ''assets''")
      case True
      have "path_str (s # p) = ''/assets/'' @ (t @ concat (map (\<lambda>s. CHR ''/'' # s) p'))"
        using True p by (simp add: path_str_def)
      then show ?thesis using str_includes_assets by metis
    next
      case F: False
      then have "''assets'' \<in> set (butlast p)" using Cons.prems False by simp
      then have "str_includes (path_str p) ''/assets/''" by (rule Cons.IH)
      moreover have "path_str (s # p) = (CHR ''/'' # s) @ path_str p"
        using False by (simp add: path_str_def)
      ultimately show ?thesis using str_includes_append by metis
    qed
  qed
qed

lemma copyFilter_inside: "''assets'' \<in> set src \<Longrightarrow> \<not> copyFilter (src @ [name])"
  unfolding copyFilter_def using path_str_assets [of "src @ [name]"] by simp

lemma copyItems_filtered:
  "''assets'' \<in> set src \<Longrightarrow> copyItems src ses des = Inr des"
  by (induction ses) (simp_all add: copyFilter_inside)

text \<open>The copy leaves what lies inside an \<^verbatim>\<open>assets\<close> directory of the destination as it is.\<close>

lemma copy_assets_untouched:
  fixes n :: "'b node" and ses :: "(string \<times> 'b node) list"
  shows "copyNode src n dest = Inr n' \<Longrightarrow> insideAssets r \<Longrightarrow>
         lookup n' r = (case dest of None \<Rightarrow> None | Some d \<Rightarrow> lookup d r)"
    and "copyItems src ses des = Inr des' \<Longrightarrow> insideAssets r \<Longrightarrow>
         lookup (Dir des') r = lookup (Dir des) r"
proof (induction src n dest and src ses des arbitrary: n' r and des' r
       rule: copyNode_copyItems.induct)
  case (1 src c dest)
  have "r \<noteq> []" using "1.prems"(2) by (auto simp: insideAssets_def)
  then show ?case using "1.prems"(1)
    by (auto simp: lookup_File split: option.splits node.splits)
next
  case (2 src ses dest)
  have rne: "r \<noteq> []" using "2.prems"(2) by (auto simp: insideAssets_def)
  show ?case
  proof (cases dest)
    case None
    then obtain des' where d: "copyItems src ses [] = Inr des'" "n' = Dir des'"
      using "2.prems"(1) by (cases "copyItems src ses []") auto
    have "lookup (Dir des') r = lookup (Dir []) r"
      using "2.IH"(1) [OF None d(1) "2.prems"(2)] .
    then show ?thesis using None d rne by (simp add: lookup_empty)
  next
    case (Some d0)
    then obtain des where d0: "d0 = Dir des" using "2.prems"(1) by (cases d0) auto
    then obtain des' where d: "copyItems src ses des = Inr des'" "n' = Dir des'"
      using "2.prems"(1) Some by (cases "copyItems src ses des") auto
    have "lookup (Dir des') r = lookup (Dir des) r"
      using "2.IH"(2) [OF Some d0 d(1) "2.prems"(2)] .
    then show ?thesis using Some d0 d by simp
  qed
next
  case (3 src des)
  then show ?case by simp
next
  case (4 src item rest des)
  show ?case
  proof (cases "copyFilter (src @ [fst item])")
    case False
    then show ?thesis using "4.prems" "4.IH"(1) by simp
  next
    case True
    then obtain n1 where n1: "copyNode (src @ [fst item]) (snd item) (map_of des (fst item)) = Inr n1"
      and rest: "copyItems src rest (AList.update (fst item) n1 des) = Inr des'"
      using "4.prems"(1) by (auto split: sum.splits)
    have a: "lookup (Dir des') r = lookup (Dir (AList.update (fst item) n1 des)) r"
      using "4.IH"(3) True n1 rest "4.prems"(2) by simp
    obtain s r' where r: "r = s # r'" using "4.prems"(2) by (cases r) (auto simp: insideAssets_def)
    show ?thesis
    proof (cases "s = fst item")
      case False
      then show ?thesis using a r by (simp add: update_conv')
    next
      case s: True
      have r'ne: "r' \<noteq> []" using "4.prems"(2) r by (auto simp: insideAssets_def)
      have "lookup n1 r' = (case map_of des (fst item) of None \<Rightarrow> None | Some d \<Rightarrow> lookup d r')"
      proof (cases "insideAssets r'")
        case True
        then show ?thesis using "4.IH"(2) \<open>copyFilter (src @ [fst item])\<close> n1 by simp
      next
        case False
        then have it: "fst item = ''assets''" using "4.prems"(2) r s r'ne
          by (auto simp: insideAssets_def)
        show ?thesis
        proof (cases "snd item")
          case (File c)
          then have "n1 = File c \<or> (\<exists>d. n1 = File d \<and> map_of des (fst item) = Some (File d))"
            using n1 by (auto split: option.splits node.splits)
          then show ?thesis using File n1 r'ne
            by (auto simp: lookup_File split: option.splits node.splits)
        next
          case (Dir sub)
          have f: "\<And>des0. copyItems (src @ [fst item]) sub des0 = Inr des0"
            by (rule copyItems_filtered) (simp add: it)
          show ?thesis using n1 Dir r'ne f
            by (auto simp: lookup_empty split: option.splits node.splits)
        qed
      qed
      then show ?thesis using a r s by (simp add: update_conv')
    qed
  qed
qed

text \<open>The copy keeps every file that the destination already holds.\<close>

lemma copy_keeps_files:
  fixes n :: "'b node" and ses :: "(string \<times> 'b node) list"
  shows "copyNode src n dest = Inr n' \<Longrightarrow> dest = Some d \<Longrightarrow> lookup d r = Some (File c) \<Longrightarrow>
         lookup n' r = Some (File c)"
    and "copyItems src ses des = Inr des' \<Longrightarrow> lookup (Dir des) r = Some (File c) \<Longrightarrow>
         lookup (Dir des') r = Some (File c)"
proof (induction src n dest and src ses des arbitrary: n' r d and des' r
       rule: copyNode_copyItems.induct)
  case (1 src c0 dest)
  then show ?case by (auto split: node.splits)
next
  case (2 src ses dest)
  then obtain des where d0: "d = Dir des" by (cases d) auto
  then obtain des' where d: "copyItems src ses des = Inr des'" "n' = Dir des'"
    using "2.prems" by (cases "copyItems src ses des") auto
  show ?case using "2.IH"(2) [OF "2.prems"(2) d0 d(1)] "2.prems"(3) d0 d(2) by simp
next
  case (3 src des)
  then show ?case by simp
next
  case (4 src item rest des)
  show ?case
  proof (cases "copyFilter (src @ [fst item])")
    case False
    then show ?thesis using "4.prems" "4.IH"(1) by simp
  next
    case True
    then obtain n1 where n1: "copyNode (src @ [fst item]) (snd item) (map_of des (fst item)) = Inr n1"
      and rest: "copyItems src rest (AList.update (fst item) n1 des) = Inr des'"
      using "4.prems"(1) by (auto split: sum.splits)
    obtain s r' where r: "r = s # r'" using "4.prems"(2) by (cases r) auto
    have "lookup (Dir (AList.update (fst item) n1 des)) r = Some (File c)"
    proof (cases "s = fst item")
      case False
      then show ?thesis using r "4.prems"(2) by (simp add: update_conv')
    next
      case s: True
      then obtain d where d: "map_of des (fst item) = Some d" "lookup d r' = Some (File c)"
        using "4.prems"(2) r by (auto split: option.splits)
      have "lookup n1 r' = Some (File c)"
        using "4.IH"(2) True n1 d by simp
      then show ?thesis using r s by (simp add: update_conv')
    qed
    then show ?thesis using "4.IH"(3) True n1 rest by simp
  qed
qed

lemma demo_copy:
  "ensureTemplateOnCreate [''app'', ''templates'', ''standard''] demoTemplate userAssets False =
     Inr [(''assets'', Dir [(''logo.png'', File (JStr ''USER-LOGO''))]),
          (''index.html.mustache'', File (JStr ''<html>{{WIDTH}}x{{HEIGHT}}</html>'')),
          (''main.js'', File (JStr ''tl.play();''))]"
  by (simp add: ensureTemplateOnCreate_def demoTemplate_def userAssets_def demo_eval)

text \<open>
  C6. The template is copied only when the existence test of the artifact is false: on an
  existing artifact \<^verbatim>\<open>ensureTemplateOnCreate\<close> returns the folder as it is, and the loop body
  gives the same result whatever the template holds. When it copies, nothing that lies
  inside an \<^verbatim>\<open>assets\<close> directory of the artifact is created, changed or removed, and every
  file the artifact already holds keeps its content.
\<close>

theorem template_copy_protection:
  "ensureTemplateOnCreate troot tn es True = Inr es
   \<and> (pathExists (fs w) (artifactFolder E outRoot fmt @ [''index.html'']) \<longrightarrow>
        processFormat E (A\<lparr>templateAt := (\<lambda>p. Some tn)\<rparr>) cfg c outRoot idx fmt (w, n) =
        processFormat E (A\<lparr>templateAt := (\<lambda>p. Some tn')\<rparr>) cfg c outRoot idx fmt (w, n))
   \<and> (ensureTemplateOnCreate troot tn es False = Inr es' \<longrightarrow>
        (insideAssets r \<longrightarrow> lookup (Dir es') r = lookup (Dir es) r)
        \<and> (lookup (Dir es) r = Some (File b) \<longrightarrow> lookup (Dir es') r = Some (File b)))"
proof (intro conjI impI)
  show "ensureTemplateOnCreate troot tn es True = Inr es"
    by (simp add: ensureTemplateOnCreate_def)
next
  assume p: "pathExists (fs w) (artifactFolder E outRoot fmt @ [''index.html''])"
  let ?A = "A\<lparr>templateAt := (\<lambda>p. Some tn)\<rparr>" and ?A' = "A\<lparr>templateAt := (\<lambda>p. Some tn')\<rparr>"
  show "processFormat E ?A cfg c outRoot idx fmt (w, n) = processFormat E ?A' cfg c outRoot idx fmt (w, n)"
  proof (cases "matchesFilters E fmt idx cfg (templateOverride A) (runFilters A)")
    case (Inl e)
    then show ?thesis by (simp add: processFormat_def)
  next
    case (Inr m)
    have v: "toNumber E (getp fmt ''width'') = Inr (fmtWidth E fmt)"
      "toNumber E (getp fmt ''height'') = Inr (fmtHeight E fmt)"
      "bannerFolderFor E outRoot (fst (resolveLangAndMotive fmt)) (snd (resolveLangAndMotive fmt))
           (fmtWidth E fmt) (fmtHeight E fmt) = Inr (artifactFolder E outRoot fmt)"
      using matches_conv [OF Inr] by simp_all
    have q: "pathExists (fs w) (artifactFolder E outRoot fmt @ [''index.html'']) = True"
      using p by simp
    show ?thesis
      unfolding processFormat_def Let_def
      by (simp add: Inr v q ensureTemplateOnCreate_def renderData_def split del: if_split
          cong: if_cong option.case_cong node.case_cong)
  qed
next
  assume a: "ensureTemplateOnCreate troot tn es False = Inr es'" and r: "insideAssets r"
  show "lookup (Dir es') r = lookup (Dir es) r"
  proof (cases tn)
    case (File x)
    then show ?thesis using a by (simp add: ensureTemplateOnCreate_def)
  next
    case (Dir ses)
    then show ?thesis using a r copy_assets_untouched(2) [of troot ses es es' r]
      by (auto simp: ensureTemplateOnCreate_def split: if_splits)
  qed
next
  assume a: "ensureTemplateOnCreate troot tn es False = Inr es'"
    and f: "lookup (Dir es) r = Some (File b)"
  show "lookup (Dir es') r = Some (File b)"
  proof (cases tn)
    case (File x)
    then show ?thesis using a by (simp add: ensureTemplateOnCreate_def)
  next
    case (Dir ses)
    then show ?thesis using a f copy_keeps_files(2) [of troot ses es es' r b]
      by (auto simp: ensureTemplateOnCreate_def split: if_splits)
  qed
qed

theorem template_copy_protection_witness:
  "pathExists (fs demoWorld1) (artifactFolder demoEnv demoRoot exampleFmt @ [''index.html''])
   \<and> processFormat demoEnv (demoArgs\<lparr>templateAt := (\<lambda>p. Some demoTemplate)\<rparr>) demoCfg (JStr ''c'')
        demoRoot 0 exampleFmt (demoWorld1, noCounts) =
      processFormat demoEnv (demoArgs\<lparr>templateAt := (\<lambda>p. Some (Dir []))\<rparr>) demoCfg (JStr ''c'')
        demoRoot 0 exampleFmt (demoWorld1, noCounts)
   \<and> (\<exists>es'. ensureTemplateOnCreate [''app'', ''templates'', ''standard''] demoTemplate userAssets False
          = Inr es'
        \<and> insideAssets [''assets'', ''logo.png''] \<and> insideAssets [''assets'', ''default.png'']
        \<and> lookup (Dir userAssets) [''assets'', ''logo.png''] = Some (File (JStr ''USER-LOGO''))
        \<and> lookup (Dir es') [''assets'', ''logo.png''] = Some (File (JStr ''USER-LOGO''))
        \<and> lookup (Dir es') [''assets'', ''default.png''] = None
        \<and> lookup (Dir es') [''main.js''] = Some (File (JStr ''tl.play();'')))"
proof -
  have p: "pathExists (fs demoWorld1) (artifactFolder demoEnv demoRoot exampleFmt @ [''index.html''])"
    by (simp add: demo_eval)
  have i: "insideAssets [''assets'', ''logo.png'']" "insideAssets [''assets'', ''default.png'']"
    by (simp_all add: insideAssets_def)
  have l: "lookup (Dir userAssets) [''assets'', ''logo.png''] = Some (File (JStr ''USER-LOGO''))"
    "lookup (Dir userAssets) [''assets'', ''default.png''] = None"
    by (simp_all add: userAssets_def)
  note t = template_copy_protection [where troot = "[''app'', ''templates'', ''standard'']"
      and tn = demoTemplate and es = userAssets and w = demoWorld1 and E = demoEnv
      and outRoot = demoRoot and fmt = exampleFmt and A = demoArgs and cfg = demoCfg
      and c = "JStr ''c''" and idx = 0 and n = noCounts and tn' = "Dir []"
      and es' = "[(''assets'', Dir [(''logo.png'', File (JStr ''USER-LOGO''))]),
          (''index.html.mustache'', File (JStr ''<html>{{WIDTH}}x{{HEIGHT}}</html>'')),
          (''main.js'', File (JStr ''tl.play();''))]"]
  let ?es' = "[(''assets'', Dir [(''logo.png'', File (JStr ''USER-LOGO''))]),
          (''index.html.mustache'', File (JStr ''<html>{{WIDTH}}x{{HEIGHT}}</html>'')),
          (''main.js'', File (JStr ''tl.play();''))]"
  have g1: "lookup (Dir ?es') [''assets'', ''logo.png''] = Some (File (JStr ''USER-LOGO''))"
    using t [where r = "[''assets'', ''logo.png'']" and b = "JStr ''USER-LOGO''"] demo_copy l(1)
    by blast
  have g2: "lookup (Dir ?es') [''assets'', ''default.png''] = None"
    using t [where r = "[''assets'', ''default.png'']" and b = "JStr ''USER-LOGO''"] demo_copy
      i(2) l(2)
    by metis
  have g3: "lookup (Dir ?es') [''main.js''] = Some (File (JStr ''tl.play();''))"
    by simp
  have q: "processFormat demoEnv (demoArgs\<lparr>templateAt := (\<lambda>p. Some demoTemplate)\<rparr>) demoCfg
        (JStr ''c'') demoRoot 0 exampleFmt (demoWorld1, noCounts) =
      processFormat demoEnv (demoArgs\<lparr>templateAt := (\<lambda>p. Some (Dir []))\<rparr>) demoCfg (JStr ''c'')
        demoRoot 0 exampleFmt (demoWorld1, noCounts)"
    using t [where r = "[]" and b = "JStr []"] p by blast
  show ?thesis
    using p q demo_copy i l(1) g1 g2 g3 by blast
qed

subsection \<open>Packaging\<close>

lemma globSeg_literal: "CHR ''*'' \<notin> set p \<Longrightarrow> globSeg p s = (s = p)"
proof (induction p arbitrary: s)
  case Nil
  then show ?case by simp
next
  case (Cons a p)
  then show ?case by (cases s) auto
qed

lemma globSeg_star_literal: "CHR ''*'' \<notin> set p \<Longrightarrow> globSeg (CHR ''*'' # p) s = suffix p s"
proof (induction s)
  case Nil
  then show ?case by (auto simp: globSeg_literal)
next
  case (Cons c s)
  then show ?case by (auto simp: globSeg_literal suffix_Cons)
qed

lemma ignored_excluded: "rel \<noteq> [] \<Longrightarrow> ignored rel = excludedName (last rel)"
  by (simp add: ignored_def ignorePatterns_def excludedName_def endsWith_def globSeg_literal
      globSeg_star_literal)

lemma walk_nonempty: "e \<in> set (walk pre es) \<Longrightarrow> fst e \<noteq> []"
  by (induction pre es rule: walk.induct) auto

text \<open>
  C8. The archive written by \<^verbatim>\<open>zipFolder\<close> of cli.js holds every path below the artifact
  directory, in the order of the walk, except the paths whose last segment is an excluded
  name: a dynamic source, a metadata file of the operating system, the generation state.
\<close>

theorem zipFolder_exclusions:
  "zipFolder es = filter (\<lambda>e. \<not> excludedName (last (fst e))) (walk [] es)
   \<and> ((p, c) \<in> set (zipFolder es) \<longleftrightarrow> (p, c) \<in> set (walk [] es) \<and> \<not> excludedName (last p))"
proof -
  have "filter (\<lambda>e. \<not> ignored (fst e)) (walk [] es) =
        filter (\<lambda>e. \<not> excludedName (last (fst e))) (walk [] es)"
    by (rule filter_cong) (auto simp: ignored_excluded walk_nonempty)
  then have "zipFolder es = filter (\<lambda>e. \<not> excludedName (last (fst e))) (walk [] es)"
    by (simp add: zipFolder_def)
  then show ?thesis by simp
qed

text \<open>
  The older entry point packs every path: on a directory that holds a \<^verbatim>\<open>.DS_Store\<close> file its
  archive is not the filtered walk.
\<close>

theorem zipFolder_legacy_counterexample:
  "zipFolder_legacy packedExample \<noteq>
     filter (\<lambda>e. \<not> excludedName (last (fst e))) (walk [] packedExample)
   \<and> ([''.DS_Store''], Some (JStr ''Bud1'')) \<in> set (zipFolder_legacy packedExample)
   \<and> excludedName ''.DS_Store''"
  by (simp add: zipFolder_legacy_def packedExample_def excludedName_def endsWith_def)

lemma zipFolder_example:
  "zipFolder packedExample =
     [([''index.html''], Some (JStr ''<html>300x250</html>'')),
      ([''assets''], None),
      ([''assets'', ''logo.png''], Some (JStr ''PNG''))]"
  by (simp add: zipFolder_def packedExample_def ignored_def ignorePatterns_def)

subsection \<open>Unreadable state\<close>

lemma readGenState_unreadable: "stateUnreadable E es \<Longrightarrow> readGenState E es = None"
  by (auto simp: stateUnreadable_def readGenState_def split: option.splits node.splits)

lemma ensureAssetsDir_other:
  "ensureAssetsDir es = Inr es2 \<Longrightarrow> k \<noteq> ''assets'' \<Longrightarrow> map_of es2 k = map_of es k"
  by (auto simp: ensureAssetsDir_def map_add_def split: option.splits node.splits)

lemma ensureAssetsDir_readAssets:
  "ensureAssetsDir es = Inr es2 \<Longrightarrow> readAssets es2 = readAssets es"
  by (auto simp: ensureAssetsDir_def readAssets_def split: option.splits node.splits)

lemma ensureAssetsDir_unreadable:
  "ensureAssetsDir es = Inr es2 \<Longrightarrow> stateUnreadable E es \<Longrightarrow> stateUnreadable E es2"
  using ensureAssetsDir_other [of es es2 "''.gen-state.json''"]
  by (simp add: stateUnreadable_def)

lemma survives_runMode: "survives E (A\<lparr>runMode := m\<rparr>) cfg idx fmt = survives E A cfg idx fmt"
  by (simp add: survives_def)

lemma templateOf_runMode: "templateOf E (A\<lparr>runMode := m\<rparr>) cfg fmt = templateOf E A cfg fmt"
  by (simp add: templateOf_def)

lemma folderStep_unreadable:
  assumes "runMode A = Incremental" and "stateUnreadable E es"
  shows "folderStep E A cfg c idx fmt True tn es =
         folderStep E (A\<lparr>runMode := Update\<rparr>) cfg c idx fmt True tn es"
proof (cases "ensureAssetsDir es")
  case (Inl e)
  then show ?thesis by (simp add: folderStep_def ensureTemplateOnCreate_def templateOf_runMode)
next
  case (Inr es2)
  then have "readGenState E es2 = None"
    using assms(2) ensureAssetsDir_unreadable readGenState_unreadable by blast
  then show ?thesis
    using Inr assms(1)
    by (simp add: folderStep_def ensureTemplateOnCreate_def shouldRenderBanner_def renderData_def
        templateOf_runMode Let_def)
qed

lemma folderStep_rendered:
  assumes "folderStep E A cfg c idx fmt True tn es = Inr r"
    and "runMode A = Incremental" and "stateUnreadable E es"
  shows "snd r \<noteq> None \<and> (\<exists>af. readAssets es = Inr af \<and>
           map_of (fst r) ''.gen-state.json'' =
             Some (File (writeJson_text E (genState af (stableStringify E fmt)
                     (fst (templateOf E A cfg fmt)) (clock A idx)))))"
proof -
  from assms(1) obtain es2 where es2: "ensureAssetsDir es = Inr es2"
    by (cases "ensureAssetsDir es") (auto simp: folderStep_def ensureTemplateOnCreate_def)
  then have s: "readGenState E es2 = None"
    using assms(3) ensureAssetsDir_unreadable readGenState_unreadable by blast
  from assms(1) es2 obtain af where af: "readAssets es2 = Inr af"
    by (cases "readAssets es2") (auto simp: folderStep_def ensureTemplateOnCreate_def)
  then have af': "readAssets es = Inr af" using es2 ensureAssetsDir_readAssets by metis
  have e: "ensureTemplateOnCreate (snd (templateOf E A cfg fmt)) tn es True = Inr es"
    by (simp add: ensureTemplateOnCreate_def)
  have "shouldRenderBanner (runMode A) True (readGenState E es2) af (stableStringify E fmt)"
    using assms(2) s by (simp add: shouldRenderBanner_def)
  then show ?thesis
    using assms(1) af' unfolding folderStep_listed [OF e es2 af]
    by (auto simp: bindE_case writeGenState_def update_conv'
        split: sum.splits option.splits node.splits)
qed

lemma finishStep_runMode:
  "finishStep E (A\<lparr>runMode := m\<rparr>) c fmt bf present fs1 w n r =
   finishStep E A c fmt bf present fs1 w n r"
  by (simp add: finishStep_def Let_def split del: if_split cong: if_cong option.case_cong)

lemma fs_finishStep:
  "finishStep E A c fmt bf present fs1 w n r = Inr (w', n') \<Longrightarrow> fs w' = putAt bf (Dir (fst r)) fs1"
  by (auto simp: finishStep_def zipStep_def Let_def bindE_case split: option.splits sum.splits if_splits)

lemma counts_finishStep:
  "snd r \<noteq> None \<Longrightarrow> finishStep E A c fmt bf True fs1 w n r = Inr (w', n') \<Longrightarrow>
   n' = n\<lparr>processed := processed n + 1, created := created n + 0, updated := updated n + 1\<rparr>"
  by (auto simp: finishStep_def Let_def bindE_case split: option.splits sum.splits if_splits)


lemma demo_suffix2 [demo_eval]:
  "\<not> suffix ''.mustache'' ''index.html''" "\<not> suffix ''.mustache'' ''.gen-state.json''"
  "\<not> suffix ''.mustache'' ''assets''"
  by (simp_all add: suffix_to_prefix)

lemma demo_step_broken:
  "processFormat demoEnv demoArgs demoCfg (JStr ''c'') demoRoot 0 exampleFmt (brokenWorld, noCounts) =
     Inr (demoWorld1, noCounts\<lparr>processed := 1, updated := 1\<rparr>)"
  by (simp add: processFormat_def Let_def demo_eval resolveLangAndMotive_def
      demoArgs_def brokenWorld_def brokenEntries_def pathExists_def shouldProcessBanner_def
      demoTemplate_def ensureTemplateOnCreate_def ensureAssetsDir_def readAssets_def
      readGenState_def shouldRenderBanner_def renderFromMustacheFiles_def endsWith_def
      writeGenState_def zipStep_def demoWorld1_def demoTree_def demoFolderEntries_def
      checkZipSize_def falsyNum_def demo_zip [unfolded demoFolderEntries_def] demoCfg_def
      noCounts_def exampleFmt_fields demoParse_def)


subsection \<open>Rendering and the asset listing\<close>

lemma update_keys_same: "k \<in> fst ` set al \<Longrightarrow> map fst (AList.update k v al) = map fst al"
  by (simp add: update_keys)

lemma renderLoop_keys:
  "renderLoop E d snap cur = Inr cur' \<Longrightarrow> list_all plainEntry snap \<Longrightarrow>
   fst ` set snap \<subseteq> fst ` set cur \<Longrightarrow> map fst cur' = map fst cur"
proof (induction E d snap cur arbitrary: cur' rule: renderLoop.induct)
  case (1 E d cur)
  then show ?case by simp
next
  case (2 E d name sub rest cur)
  from "2.prems"(1) obtain sub' where s: "renderLoop E d sub sub = Inr sub'"
    and r: "renderLoop E d rest (AList.update name (Dir sub') cur) = Inr cur'"
    by (cases "renderLoop E d sub sub") auto
  have k: "map fst (AList.update name (Dir sub') cur) = map fst cur"
    using "2.prems"(3) by (simp add: update_keys_same)
  then have "set (map fst (AList.update name (Dir sub') cur)) = set (map fst cur)" by simp
  then have "fst ` set rest \<subseteq> fst ` set (AList.update name (Dir sub') cur)"
    using "2.prems"(3) by auto
  then have "map fst cur' = map fst (AList.update name (Dir sub') cur)"
    using "2.IH"(2) [OF s r] "2.prems"(2) by simp
  then show ?case using k by simp
next
  case (3 E d name c0 rest cur)
  from "3.prems"(2) have n: "\<not> endsWith name ''.mustache''" by (simp add: plainEntry_def)
  then show ?case using "3.IH"(1) "3.prems" by simp
qed

lemma renderLoop_assets:
  "renderLoop E d snap cur = Inr cur' \<Longrightarrow>
   map_of cur ''assets'' = Some (Dir as0) \<Longrightarrow> map fst as0 = ns \<Longrightarrow>
   (\<And>sub. (''assets'', Dir sub) \<in> set snap \<Longrightarrow> map fst sub = ns \<and> list_all plainEntry sub) \<Longrightarrow>
   \<exists>as'. map_of cur' ''assets'' = Some (Dir as') \<and> map fst as' = ns"
proof (induction E d snap cur arbitrary: cur' as0 rule: renderLoop.induct)
  case (1 E d cur)
  then show ?case by simp
next
  case (2 E d name sub rest cur)
  from "2.prems"(1) obtain sub' where s: "renderLoop E d sub sub = Inr sub'"
    and r: "renderLoop E d rest (AList.update name (Dir sub') cur) = Inr cur'"
    by (cases "renderLoop E d sub sub") auto
  have rest: "\<And>sub. (''assets'', Dir sub) \<in> set rest \<Longrightarrow> map fst sub = ns \<and> list_all plainEntry sub"
    using "2.prems"(4) by simp
  show ?case
  proof (cases "name = ''assets''")
    case True
    then have "map fst sub = ns \<and> list_all plainEntry sub" using "2.prems"(4) by simp
    then have m: "map fst sub' = ns" using renderLoop_keys [OF s] by simp
    have "map_of (AList.update name (Dir sub') cur) ''assets'' = Some (Dir sub')"
      using True by (simp add: update_conv')
    then show ?thesis using "2.IH"(2) [OF s r _ m rest] by simp
  next
    case False
    then have "map_of (AList.update name (Dir sub') cur) ''assets'' = Some (Dir as0)"
      using "2.prems"(2) by (simp add: update_conv')
    then show ?thesis using "2.IH"(2) [OF s r _ "2.prems"(3) rest] by simp
  qed
next
  case (3 E d name c0 rest cur)
  have rest: "\<And>sub. (''assets'', Dir sub) \<in> set rest \<Longrightarrow> map fst sub = ns \<and> list_all plainEntry sub"
    using "3.prems"(4) by simp
  show ?case
  proof (cases "endsWith name ''.mustache''")
    case False
    then have "renderLoop E d rest cur = Inr cur'" using "3.prems"(1) by simp
    then show ?thesis using "3.IH"(1) [OF False _ "3.prems"(2,3) rest] by simp
  next
    case True
    let ?o = "take (length name - 9) name"
    from "3.prems"(1) True obtain raw out where raw: "map_of cur name = Some (File raw)"
      and out: "mustache_render E raw d = Some out"
      and ne: "?o \<noteq> []"
      and r: "renderLoop E d rest (AList.update ?o (File out) cur) = Inr cur'"
      and nd: "\<And>sub. map_of cur ?o \<noteq> Some (Dir sub)"
      by (auto simp: Let_def split: option.splits node.splits if_splits)
    have "?o \<noteq> ''assets''" using nd [of as0] "3.prems"(2) by auto
    then have a: "map_of (AList.update ?o (File out) cur) ''assets'' = Some (Dir as0)"
      using "3.prems"(2) by (simp add: update_conv')
    show ?thesis
    proof (cases "map_of cur ?o")
      case None
      show ?thesis
        by (rule "3.IH"(2) [OF _ raw refl out refl ne None r a "3.prems"(3) rest]) (simp_all add: True)
    next
      case (Some b)
      then obtain c where c: "b = File c" using nd by (cases b) auto
      show ?thesis
        by (rule "3.IH"(3) [OF _ raw refl out refl ne Some c r a "3.prems"(3) rest]) (simp_all add: True)
    qed
  qed
qed

lemma render_listing:
  assumes "renderFromMustacheFiles E d es = Inr es'" and "distinct (map fst es)"
    and "map_of es ''assets'' = Some (Dir as)" and "list_all plainEntry as"
  shows "\<exists>as'. map_of es' ''assets'' = Some (Dir as') \<and> map fst as' = map fst as"
proof (rule renderLoop_assets [OF assms(1) [unfolded renderFromMustacheFiles_def] assms(3) refl])
  fix sub assume "(''assets'', Dir sub) \<in> set es"
  then have "map_of es ''assets'' = Some (Dir sub)" using assms(2) by simp
  then show "map fst sub = map fst as \<and> list_all plainEntry sub" using assms(3,4) by simp
qed

subsection \<open>Copy, assets directory and tidy folders\<close>

lemma copy_distinct:
  "copyItems src ses des = Inr des' \<Longrightarrow> distinct (map fst des) \<Longrightarrow> distinct (map fst des')"
proof (induction ses arbitrary: des)
  case Nil
  then show ?case by simp
next
  case (Cons item rest)
  show ?case
  proof (cases "copyFilter (src @ [fst item])")
    case False
    then show ?thesis using Cons by simp
  next
    case True
    then obtain n1 where n1: "copyNode (src @ [fst item]) (snd item) (map_of des (fst item)) = Inr n1"
      and r: "copyItems src rest (AList.update (fst item) n1 des) = Inr des'"
      using Cons.prems(1) by (auto split: sum.splits)
    have "distinct (map fst (AList.update (fst item) n1 des))"
      using Cons.prems(2) by (simp add: distinct_update)
    then show ?thesis using Cons.IH [OF r] by simp
  qed
qed

lemma copy_clean:
  "copyItems src ses des = Inr des' \<Longrightarrow> cleanAssets des \<Longrightarrow> cleanAssets des'"
proof (induction ses arbitrary: des)
  case Nil
  then show ?case by simp
next
  case (Cons item rest)
  show ?case
  proof (cases "copyFilter (src @ [fst item])")
    case False
    then show ?thesis using Cons by simp
  next
    case True
    then obtain n1 where n1: "copyNode (src @ [fst item]) (snd item) (map_of des (fst item)) = Inr n1"
      and r: "copyItems src rest (AList.update (fst item) n1 des) = Inr des'"
      using Cons.prems(1) by (auto split: sum.splits)
    have "cleanAssets (AList.update (fst item) n1 des)"
    proof (cases "fst item = ''assets''")
      case False
      then show ?thesis using Cons.prems(2) by (simp add: cleanAssets_def update_conv')
    next
      case a: True
      have in_assets: "''assets'' \<in> set (src @ [fst item])" using a by simp
      show ?thesis
      proof (cases "snd item")
        case (File c)
        have "\<exists>x. n1 = File x"
          using n1 unfolding File by (cases "map_of des (fst item)") (auto split: node.splits)
        then show ?thesis using a by (auto simp: cleanAssets_def update_conv')
      next
        case (Dir ses')
        show ?thesis
        proof (cases "map_of des (fst item)")
          case None
          then have "n1 = Dir []"
            using n1 Dir copyItems_filtered [OF in_assets, of ses' "[]"] by simp
          then show ?thesis using a by (simp add: cleanAssets_def update_conv')
        next
          case (Some d)
          then obtain as where d: "d = Dir as" using n1 Dir by (cases d) auto
          then have "n1 = Dir as"
            using n1 Dir Some copyItems_filtered [OF in_assets, of ses' as] by simp
          then show ?thesis using a Some d Cons.prems(2) by (simp add: cleanAssets_def update_conv')
        qed
      qed
    qed
    then show ?thesis using Cons.IH [OF r] by simp
  qed
qed

lemma template_tidy:
  assumes "ensureTemplateOnCreate troot tn es present = Inr es1"
    and "distinct (map fst es)" and "cleanAssets es"
  shows "distinct (map fst es1) \<and> cleanAssets es1"
proof (cases "present \<or> \<not> copyFilter troot")
  case True
  then show ?thesis using assms by (auto simp: ensureTemplateOnCreate_def split: node.splits if_splits)
next
  case False
  then obtain ses where "tn = Dir ses" "copyItems troot ses es = Inr es1"
    using assms(1) by (cases tn) (auto simp: ensureTemplateOnCreate_def)
  then show ?thesis using copy_distinct copy_clean assms(2,3) by blast
qed

lemma assetsDir_tidy:
  assumes "ensureAssetsDir es1 = Inr es2" and "distinct (map fst es1)" and "cleanAssets es1"
  shows "distinct (map fst es2) \<and> cleanAssets es2 \<and> (\<exists>as. map_of es2 ''assets'' = Some (Dir as))"
proof (cases "map_of es1 ''assets''")
  case None
  then have "es2 = es1 @ [(''assets'', Dir [])]" using assms(1) by (simp add: ensureAssetsDir_def)
  moreover have "''assets'' \<notin> fst ` set es1" using None by (simp add: map_of_eq_None_iff)
  ultimately show ?thesis using assms(2) None by (auto simp: cleanAssets_def map_add_def)
next
  case (Some a)
  then show ?thesis using assms by (cases a) (auto simp: ensureAssetsDir_def)
qed

subsection \<open>Settled folders\<close>

lemma folderStep_skips:
  assumes "runMode A = Incremental" and "settled E fmt es"
  shows "folderStep E A cfg c idx fmt True tn es = Inr (es, None)"
proof -
  from assms(2) obtain as st where as: "map_of es ''assets'' = Some (Dir as)"
    and st: "readGenState E es = Some st"
    and a: "getp st ''assetsFiles'' = Some (JArr (map JStr (sort (filter isAssetFile (map fst as)))))"
    and f: "getp st ''fmtSig'' = Some (JStr (stableStringify E fmt))"
    by (auto simp: settled_def split: option.splits node.splits)
  have e: "ensureTemplateOnCreate (snd (templateOf E A cfg fmt)) tn es True = Inr es"
    by (simp add: ensureTemplateOnCreate_def)
  have d: "ensureAssetsDir es = Inr es" using as by (simp add: ensureAssetsDir_def)
  have r: "readAssets es = Inr (sort (filter isAssetFile (map fst as)))"
    using as by (simp add: readAssets_def)
  have "\<not> shouldRenderBanner (runMode A) True (readGenState E es)
          (sort (filter isAssetFile (map fst as))) (stableStringify E fmt)"
    using assms(1) st a f by (simp add: shouldRender_incremental)
  then show ?thesis unfolding folderStep_listed [OF e d r] by simp
qed

lemma folderStep_settles:
  assumes inc: "runMode A = Incremental"
    and rt: "\<And>af sig tt ts. readJson_parse E (writeJson_text E (genState af sig tt ts)) =
                Some (genState af sig tt ts)"
    and di: "distinct (map fst es)" and cl: "cleanAssets es"
    and st: "folderStep E A cfg c idx fmt present tn es = Inr r"
  shows "settled E fmt (fst r)"
proof -
  from st obtain es1 where e1: "ensureTemplateOnCreate (snd (templateOf E A cfg fmt)) tn es present = Inr es1"
    by (cases "ensureTemplateOnCreate (snd (templateOf E A cfg fmt)) tn es present")
      (auto simp: folderStep_def Let_def)
  from st e1 obtain es2 where e2: "ensureAssetsDir es1 = Inr es2"
    by (cases "ensureAssetsDir es1") (auto simp: folderStep_def Let_def)
  from template_tidy [OF e1 di cl] assetsDir_tidy [OF e2] obtain as where
    d2: "distinct (map fst es2)" and c2: "cleanAssets es2" and as: "map_of es2 ''assets'' = Some (Dir as)"
    by blast
  let ?af = "sort (filter isAssetFile (map fst as))"
  let ?sig = "stableStringify E fmt"
  have r: "readAssets es2 = Inr ?af" using as by (simp add: readAssets_def)
  note fl = folderStep_listed [OF e1 e2 r, of c idx]
  show ?thesis
  proof (cases "shouldRenderBanner (runMode A) present (readGenState E es2) ?af ?sig")
    case False
    then have "r = (es2, None)" using st fl by simp
    moreover obtain s where "readGenState E es2 = Some s"
      "getp s ''assetsFiles'' = Some (JArr (map JStr ?af))" "getp s ''fmtSig'' = Some (JStr ?sig)"
      using False inc by (cases "readGenState E es2") (auto simp: shouldRender_incremental)
    ultimately show ?thesis using as by (simp add: settled_def)
  next
    case True
    let ?st = "genState ?af ?sig (fst (templateOf E A cfg fmt)) (clock A idx)"
    from st fl True obtain mb es3 es4 where
      rn: "renderFromMustacheFiles E
             (renderData E A cfg fmt c (fst (resolveLangAndMotive fmt)) (snd (resolveLangAndMotive fmt))
                (fmtWidth E fmt) (fmtHeight E fmt) mb ?af (fst (templateOf E A cfg fmt))) es2 = Inr es3"
      and wr: "writeGenState E es3 ?st = Inr es4" and rr: "r = (es4, Some mb)"
      by (auto simp: bindE_case split: sum.splits)
    have pl: "list_all plainEntry as" using c2 as by (simp add: cleanAssets_def)
    from render_listing [OF rn d2 as pl] obtain as' where
      as': "map_of es3 ''assets'' = Some (Dir as')" "map fst as' = map fst as" by blast
    have e4: "es4 = AList.update ''.gen-state.json'' (File (writeJson_text E ?st)) es3"
      using wr by (auto simp: writeGenState_def split: option.splits node.splits)
    have a4: "map_of es4 ''assets'' = Some (Dir as')" using as' e4 by (simp add: update_conv')
    have g4: "readGenState E es4 = Some ?st"
      using e4 rt by (simp add: readGenState_def update_conv')
    show ?thesis
      using rr a4 g4 as'(2) by (simp add: settled_def genState_def)
  qed
qed

subsection \<open>One step of the loop\<close>

lemma step_survivor:
  assumes s: "survives E A cfg idx fmt" and inc: "runMode A = Incremental"
    and res: "processFormat E A cfg c outRoot idx fmt (w, n) = Inr (w', n')"
  obtains tn fs1 es r where "templateAt A (snd (templateOf E A cfg fmt)) = Some tn"
    and "ensureDir (artifactFolder E outRoot fmt) (fs w) = Inr fs1"
    and "lookup fs1 (artifactFolder E outRoot fmt) = Some (Dir es)"
    and "folderStep E A cfg c idx fmt
           (pathExists (fs w) (artifactFolder E outRoot fmt @ [''index.html''])) tn es = Inr r"
    and "finishStep E A c fmt (artifactFolder E outRoot fmt)
           (pathExists (fs w) (artifactFolder E outRoot fmt @ [''index.html''])) fs1 w n r = Inr (w', n')"
proof -
  from res show ?thesis
    unfolding processFormat_folder [OF s] Let_def
    using inc that
    by (auto simp: shouldProcessBanner_def bindE_case
        split: option.splits sum.splits node.splits)
qed

lemma step_frame:
  assumes s: "survives E A cfg idx fmt" and inc: "runMode A = Incremental"
    and res: "processFormat E A cfg c outRoot idx fmt (w, n) = Inr (w', n')"
    and q: "\<not> prefix (artifactFolder E outRoot fmt) q" "\<not> prefix q (artifactFolder E outRoot fmt)"
  shows "lookup (fs w') q = lookup (fs w) q"
proof -
  from step_survivor [OF s inc res] obtain tn fs1 es r where
    d: "ensureDir (artifactFolder E outRoot fmt) (fs w) = Inr fs1"
    and f: "finishStep E A c fmt (artifactFolder E outRoot fmt)
           (pathExists (fs w) (artifactFolder E outRoot fmt @ [''index.html''])) fs1 w n r = Inr (w', n')"
    by blast
  have "fs w' = putAt (artifactFolder E outRoot fmt) (Dir (fst r)) fs1" using fs_finishStep [OF f] .
  then show ?thesis using putAt_frame [OF q, of "Dir (fst r)" fs1] ensureDir_frame [OF d q] by simp
qed

lemma step_settles:
  assumes s: "survives E A cfg idx fmt" and inc: "runMode A = Incremental"
    and rt: "\<And>af sig tt ts. readJson_parse E (writeJson_text E (genState af sig tt ts)) =
                Some (genState af sig tt ts)"
    and res: "processFormat E A cfg c outRoot idx fmt (w, n) = Inr (w', n')"
    and t: "tidy (lookup (fs w) (artifactFolder E outRoot fmt))"
  shows "\<exists>es'. lookup (fs w') (artifactFolder E outRoot fmt) = Some (Dir es') \<and> settled E fmt es'"
proof -
  let ?bf = "artifactFolder E outRoot fmt"
  obtain tn fs1 es r where
    d: "ensureDir ?bf (fs w) = Inr fs1" and l: "lookup fs1 ?bf = Some (Dir es)"
    and fo: "folderStep E A cfg c idx fmt (pathExists (fs w) (?bf @ [''index.html''])) tn es = Inr r"
    and f: "finishStep E A c fmt ?bf (pathExists (fs w) (?bf @ [''index.html''])) fs1 w n r = Inr (w', n')"
    by (rule step_survivor [OF s inc res])
  have el: "lookup fs1 ?bf = (case lookup (fs w) ?bf of None \<Rightarrow> Some (Dir []) | Some m \<Rightarrow> Some m)"
    using ensureDir_lookup [OF d] by blast
  have de: "distinct (map fst es) \<and> cleanAssets es"
  proof (cases "lookup (fs w) ?bf")
    case None
    then have "es = []" using el l by simp
    then show ?thesis by (simp add: cleanAssets_def)
  next
    case (Some m)
    then have "lookup (fs w) ?bf = Some (Dir es)" using el l by simp
    then show ?thesis using t by (simp add: tidy_def)
  qed
  have se: "settled E fmt (fst r)"
    by (rule folderStep_settles [OF inc rt _ _ fo]) (use de in blast)+
  have "fs w' = putAt ?bf (Dir (fst r)) fs1" using fs_finishStep [OF f] .
  then have "lookup (fs w') ?bf = Some (Dir (fst r))"
    using putAt_lookup [OF l, of "Dir (fst r)" "[]"] by simp
  then show ?thesis using se by blast
qed

lemma step_skips:
  assumes s: "survives E A cfg idx fmt" and inc: "runMode A = Incremental"
    and t: "templateAt A (snd (templateOf E A cfg fmt)) \<noteq> None"
    and l: "lookup (fs w) (artifactFolder E outRoot fmt) = Some (Dir es)"
    and i: "map_of es ''index.html'' \<noteq> None" and se: "settled E fmt es"
  shows "processFormat E A cfg c outRoot idx fmt (w, n) = Inr (w, n\<lparr>skippedCount := skippedCount n + 1\<rparr>)"
proof -
  from t obtain tn where tn: "templateAt A (snd (templateOf E A cfg fmt)) = Some tn" by blast
  have p: "putAt (artifactFolder E outRoot fmt) (Dir es) (fs w) = fs w" using putAt_same [OF l] .
  have sp: "shouldProcessBanner (runMode A) True" using inc by (simp add: shouldProcessBanner_def)
  have f: "finishStep E A c fmt (artifactFolder E outRoot fmt) True (fs w) w n (es, None) =
      Inr (w, n\<lparr>skippedCount := skippedCount n + 1\<rparr>)"
    by (simp add: finishStep_def p)
  show ?thesis
    unfolding processFormat_existing [OF s l i sp] tn folderStep_skips [OF inc se]
    by (simp add: f)
qed

subsection \<open>The loop\<close>

lemma step_other:
  assumes "\<not> survives E A cfg idx fmt"
    and "processFormat E A cfg c outRoot idx fmt (w, n) = Inr (w', n')"
  shows "matchesFilters E fmt idx cfg (templateOverride A) (runFilters A) = Inr False
         \<and> w' = w \<and> n' = n\<lparr>filteredOut := filteredOut n + 1\<rparr>"
proof (cases "matchesFilters E fmt idx cfg (templateOverride A) (runFilters A)")
  case (Inl e)
  then show ?thesis using assms(2) by (simp add: processFormat_def Let_def)
next
  case (Inr b)
  show ?thesis
  proof (cases b)
    case True
    then have "\<not> isFinite (fmtWidth E fmt) \<or> \<not> isFinite (fmtHeight E fmt)"
      using assms(1) Inr by (simp add: survives_def)
    then show ?thesis using processFormat_invalid [of E fmt idx cfg A c outRoot "(w, n)"] Inr True assms(2)
      by simp
  next
    case False
    then show ?thesis using processFormat_filtered [of E fmt idx cfg A c outRoot w n] Inr assms(2)
      by simp
  qed
qed

lemma loop_Cons:
  assumes "loopFormats E A cfg c outRoot idx (fmt # rest) (w, n) = (None, w', n')"
  obtains w1 n1 where "processFormat E A cfg c outRoot idx fmt (w, n) = Inr (w1, n1)"
    and "loopFormats E A cfg c outRoot (Suc idx) rest (w1, n1) = (None, w', n')"
proof (cases "processFormat E A cfg c outRoot idx fmt (w, n)")
  case (Inl e)
  then show ?thesis using assms by simp
next
  case (Inr wc)
  then show ?thesis using assms that [of "fst wc" "snd wc"] by simp
qed

lemma loop_frame:
  assumes inc: "runMode A = Incremental"
  shows "loopFormats E A cfg c outRoot idx fmts (w, n) = (None, w', n') \<Longrightarrow>
    list_all (\<lambda>f. \<not> prefix (artifactFolder E outRoot f) q \<and> \<not> prefix q (artifactFolder E outRoot f))
      (survivors E A cfg idx fmts) \<Longrightarrow>
    lookup (fs w') q = lookup (fs w) q"
proof (induction fmts arbitrary: idx w n)
  case Nil
  then show ?case by simp
next
  case (Cons fmt rest)
  obtain w1 n1 where p: "processFormat E A cfg c outRoot idx fmt (w, n) = Inr (w1, n1)"
    and l: "loopFormats E A cfg c outRoot (Suc idx) rest (w1, n1) = (None, w', n')"
    by (rule loop_Cons [OF Cons.prems(1)])
  have r: "list_all (\<lambda>f. \<not> prefix (artifactFolder E outRoot f) q \<and> \<not> prefix q (artifactFolder E outRoot f))
      (survivors E A cfg (Suc idx) rest)"
    using Cons.prems(2) by simp
  have 1: "lookup (fs w') q = lookup (fs w1) q" by (rule Cons.IH [OF l r])
  show ?case
  proof (cases "survives E A cfg idx fmt")
    case True
    then have "\<not> prefix (artifactFolder E outRoot fmt) q" "\<not> prefix q (artifactFolder E outRoot fmt)"
      using Cons.prems(2) by simp_all
    then have "lookup (fs w1) q = lookup (fs w) q" by (rule step_frame [OF True inc p])
    then show ?thesis using 1 by simp
  next
    case False
    then have "w1 = w" using step_other [OF False p] by blast
    then show ?thesis using 1 by simp
  qed
qed

lemma loop_settles:
  assumes inc: "runMode A = Incremental"
    and rt: "\<And>af sig tt ts. readJson_parse E (writeJson_text E (genState af sig tt ts)) =
                Some (genState af sig tt ts)"
  shows "loopFormats E A cfg c outRoot idx fmts (w, n) = (None, w', n') \<Longrightarrow>
    separate (map (artifactFolder E outRoot) (survivors E A cfg idx fmts)) \<Longrightarrow>
    list_all (\<lambda>f. tidy (lookup (fs w) (artifactFolder E outRoot f))) (survivors E A cfg idx fmts) \<Longrightarrow>
    list_all (\<lambda>f. \<exists>es. lookup (fs w') (artifactFolder E outRoot f) = Some (Dir es) \<and> settled E f es)
      (survivors E A cfg idx fmts)
    \<and> passes E A cfg idx fmts"
proof (induction fmts arbitrary: idx w n)
  case Nil
  then show ?case by simp
next
  case (Cons fmt rest)
  let ?bf = "artifactFolder E outRoot"
  let ?rest = "survivors E A cfg (Suc idx) rest"
  obtain w1 n1 where p: "processFormat E A cfg c outRoot idx fmt (w, n) = Inr (w1, n1)"
    and l: "loopFormats E A cfg c outRoot (Suc idx) rest (w1, n1) = (None, w', n')"
    by (rule loop_Cons [OF Cons.prems(1)])
  show ?case
  proof (cases "survives E A cfg idx fmt")
    case True
    have sep: "list_all (\<lambda>f. \<not> prefix (?bf f) (?bf fmt) \<and> \<not> prefix (?bf fmt) (?bf f)) ?rest"
      and sr: "separate (map ?bf ?rest)"
      using Cons.prems(2) True by (auto simp: list_all_iff)
    have t: "tidy (lookup (fs w) (?bf fmt))" and tr: "list_all (\<lambda>f. tidy (lookup (fs w) (?bf f))) ?rest"
      using Cons.prems(3) True by simp_all
    have "\<forall>f\<in>set ?rest. lookup (fs w1) (?bf f) = lookup (fs w) (?bf f)"
    proof
      fix f assume "f \<in> set ?rest"
      then have "\<not> prefix (?bf fmt) (?bf f)" "\<not> prefix (?bf f) (?bf fmt)"
        using sep by (simp_all add: list_all_iff)
      then show "lookup (fs w1) (?bf f) = lookup (fs w) (?bf f)" by (rule step_frame [OF True inc p])
    qed
    then have t1: "list_all (\<lambda>f. tidy (lookup (fs w1) (?bf f))) ?rest"
      using tr by (simp add: list_all_iff)
    note ih = Cons.IH [OF l sr t1]
    have "\<exists>es'. lookup (fs w1) (?bf fmt) = Some (Dir es') \<and> settled E fmt es'"
      by (rule step_settles [OF True inc rt p t])
    moreover have "lookup (fs w') (?bf fmt) = lookup (fs w1) (?bf fmt)"
      by (rule loop_frame [OF inc l sep])
    ultimately have h: "\<exists>es. lookup (fs w') (?bf fmt) = Some (Dir es) \<and> settled E fmt es" by simp
    have "templateAt A (snd (templateOf E A cfg fmt)) \<noteq> None"
      by (rule step_survivor [OF True inc p]) simp
    then show ?thesis using True h ih by simp
  next
    case False
    have o: "matchesFilters E fmt idx cfg (templateOverride A) (runFilters A) = Inr False" and w1: "w1 = w"
      using step_other [OF False p] by blast+
    have "separate (map ?bf ?rest)" "list_all (\<lambda>f. tidy (lookup (fs w1) (?bf f))) ?rest"
      using Cons.prems(2,3) False w1 by simp_all
    then show ?thesis using Cons.IH [OF l] False o by simp
  qed
qed

lemma survivors_length: "length (survivors E A cfg idx fmts) \<le> length fmts"
proof (induction fmts arbitrary: idx)
  case Nil
  then show ?case by simp
next
  case (Cons fmt rest)
  show ?case using Cons.IH [of "Suc idx"] by (simp add: le_SucI)
qed

lemma loop_skips:
  assumes inc: "runMode A = Incremental"
  shows "passes E A cfg idx fmts \<Longrightarrow>
    list_all (\<lambda>f. \<exists>es. lookup (fs w) (artifactFolder E outRoot f) = Some (Dir es)
                        \<and> map_of es ''index.html'' \<noteq> None \<and> settled E f es)
      (survivors E A cfg idx fmts) \<Longrightarrow>
    loopFormats E A cfg c outRoot idx fmts (w, m) =
      (None, w, m\<lparr>skippedCount := skippedCount m + length (survivors E A cfg idx fmts),
                   filteredOut := filteredOut m + (length fmts - length (survivors E A cfg idx fmts))\<rparr>)"
proof (induction fmts arbitrary: idx m)
  case Nil
  then show ?case by simp
next
  case (Cons fmt rest)
  let ?rest = "survivors E A cfg (Suc idx) rest"
  have le: "length ?rest \<le> length rest" by (rule survivors_length)
  show ?case
  proof (cases "survives E A cfg idx fmt")
    case True
    then obtain es where t: "templateAt A (snd (templateOf E A cfg fmt)) \<noteq> None"
      and f: "lookup (fs w) (artifactFolder E outRoot fmt) = Some (Dir es)"
      "map_of es ''index.html'' \<noteq> None" "settled E fmt es"
      using Cons.prems by auto
    have p: "processFormat E A cfg c outRoot idx fmt (w, m) = Inr (w, m\<lparr>skippedCount := skippedCount m + 1\<rparr>)"
      by (rule step_skips [OF True inc t f])
    have "passes E A cfg (Suc idx) rest" using Cons.prems(1) by simp
    moreover have "list_all (\<lambda>f. \<exists>es. lookup (fs w) (artifactFolder E outRoot f) = Some (Dir es)
                        \<and> map_of es ''index.html'' \<noteq> None \<and> settled E f es) ?rest"
      using Cons.prems(2) True by simp
    ultimately show ?thesis using Cons.IH [of "Suc idx" "m\<lparr>skippedCount := skippedCount m + 1\<rparr>"] p True
      by simp
  next
    case False
    then have "matchesFilters E fmt idx cfg (templateOverride A) (runFilters A) = Inr False"
      using Cons.prems(1) by simp
    then have p: "processFormat E A cfg c outRoot idx fmt (w, m) = Inr (w, m\<lparr>filteredOut := filteredOut m + 1\<rparr>)"
      by (rule processFormat_filtered)
    have "passes E A cfg (Suc idx) rest" using Cons.prems(1) by simp
    moreover have "list_all (\<lambda>f. \<exists>es. lookup (fs w) (artifactFolder E outRoot f) = Some (Dir es)
                        \<and> map_of es ''index.html'' \<noteq> None \<and> settled E f es) ?rest"
      using Cons.prems(2) False by simp
    ultimately show ?thesis
      using Cons.IH [of "Suc idx" "m\<lparr>filteredOut := filteredOut m + 1\<rparr>"] p False le
      by (simp add: Suc_diff_le)
  qed
qed

subsection \<open>The time of a run\<close>

lemma survives_clock: "survives E (A\<lparr>clock := k\<rparr>) cfg idx fmt = survives E A cfg idx fmt"
  by (simp add: survives_def)

lemma templateOf_clock: "templateOf E (A\<lparr>clock := k\<rparr>) cfg fmt = templateOf E A cfg fmt"
  by (simp add: templateOf_def)

lemma survivors_clock: "survivors E (A\<lparr>clock := k\<rparr>) cfg idx fmts = survivors E A cfg idx fmts"
  by (induction fmts arbitrary: idx) (simp_all add: survives_clock)

lemma passes_clock: "passes E (A\<lparr>clock := k\<rparr>) cfg idx fmts = passes E A cfg idx fmts"
  by (induction fmts arbitrary: idx) (simp_all add: survives_clock templateOf_clock)

lemma run_clock:
  "campaignOf (A\<lparr>clock := k\<rparr>) cfg = campaignOf A cfg" "outRootOf (A\<lparr>clock := k\<rparr>) c = outRootOf A c"
  by (simp_all add: campaignOf_def outRootOf_def)

subsection \<open>Two formats in one folder\<close>

lemma demoWorld1_for: "demoWorld1 = demoWorldFor exampleFmt 1"
  by (simp add: demoWorld1_def demoWorldFor_def demoFolderEntries_def demoEntriesFor_def)

lemma dupFmt_fields:
  "dupFmt \<noteq> JNull"
  "getp dupFmt ''width'' = Some (JNum (Finite 300))"
  "getp dupFmt ''height'' = Some (JNum (Finite 250))"
  "getp dupFmt ''language'' = Some (JStr ''en'')"
  "getp dupFmt ''motive'' = None"
  "getp dupFmt ''motiveName'' = None"
  "getp dupFmt ''size'' = Some (JStr ''40kb'')"
  "getp dupFmt ''brand'' = None"
  "getp dupFmt ''adserver'' = None"
  "getp dupFmt ''clicktag'' = Some (JStr ''https://example.com/b'')"
  by (simp_all add: dupFmt_def)

lemma dupCfg_fields:
  "dupCfg \<noteq> JNull"
  "readFormatsFromCfg dupCfg = [exampleFmt, dupFmt]"
  "campaignOf demoArgs dupCfg = JStr ''c''"
  "getp dupCfg ''brand'' = None"
  "outRootOf demoArgs ''c'' = demoRoot"
  by (simp_all add: dupCfg_def readFormatsFromCfg_def campaignOf_def demoArgs_def
      outRootOf_def path_resolve_def path_join_def normStep_def demoRoot_def)

lemma dup_templateRoot:
  "getp cfg ''brand'' = None \<Longrightarrow>
   getTemplateRoot demoEnv dupFmt cfg None = Inr (''standard'', [''app'', ''templates'', ''standard''])"
  by (simp add: getTemplateRoot_def jsString_def demo_eval dupFmt_fields path_join_def normStep_def Let_def)

lemma dup_sig: "stableStringify demoEnv exampleFmt \<noteq> stableStringify demoEnv dupFmt"
  by code_simp

lemma dup_conversions:
  "fmtWidth demoEnv dupFmt = Finite 300" "fmtHeight demoEnv dupFmt = Finite 250"
  "getp cfg ''brand'' = None \<Longrightarrow>
   templateOf demoEnv demoArgs cfg dupFmt = (''standard'', [''app'', ''templates'', ''standard''])"
  "resolveLangAndMotive dupFmt = (JStr ''en'', JNull)"
  "resolveLangAndMotive exampleFmt = (JStr ''en'', JNull)"
  by (simp_all add: fmtWidth_def fmtHeight_def templateOf_def demo_eval dupFmt_fields
      dup_templateRoot resolveLangAndMotive_def)

lemma dup_survives:
  "getp cfg ''brand'' = None \<Longrightarrow> survives demoEnv demoArgs cfg idx dupFmt"
  by (simp add: survives_def matchesFilters_def normalizeSize_def jsString_def noFilters_def
      demo_eval dupFmt_fields dup_conversions dup_templateRoot Let_def)

lemma dup_artifactFolder:
  "artifactFolder demoEnv demoRoot dupFmt = [''work'', ''src'', ''c'', ''en'', ''300x250'']"
  by (simp add: artifactFolder_def dup_conversions demo_eval)

lemma demo_zipFor:
  "zipFolder (demoEntriesFor fmt) =
     [([''main.js''], Some (JStr ''tl.play();'')), ([''assets''], None),
      ([''index.html''], Some (JStr ''<html>{{WIDTH}}x{{HEIGHT}}</html>''))]"
  unfolding demoEntriesFor_def zipFolder_def
  by (simp add: ignored_def ignorePatterns_def)

text \<open>
  A format whose folder holds the state of another fingerprint is rendered again, and
  leaves its own fingerprint.
\<close>

lemma demo_step_update:
  assumes s: "survives demoEnv demoArgs cfg idx fmt"
    and bf: "artifactFolder demoEnv demoRoot fmt = [''work'', ''src'', ''c'', ''en'', ''300x250'']"
    and tr: "templateOf demoEnv demoArgs cfg fmt = (''standard'', [''app'', ''templates'', ''standard''])"
    and kb: "getp fmt ''size'' = Some (JStr ''40kb'')"
    and lm: "resolveLangAndMotive fmt = (JStr ''en'', JNull)"
    and wh: "fmtWidth demoEnv fmt = Finite 300" "fmtHeight demoEnv fmt = Finite 250"
    and ne: "stableStringify demoEnv g \<noteq> stableStringify demoEnv fmt"
  shows "processFormat demoEnv demoArgs cfg (JStr ''c'') demoRoot idx fmt (demoWorldFor g k, n) =
     Inr (demoWorldFor fmt (Suc k), n\<lparr>processed := processed n + 1, updated := updated n + 1\<rparr>)"
proof -
  let ?bf = "artifactFolder demoEnv demoRoot fmt"
  have l: "lookup (fs (demoWorldFor g k)) ?bf = Some (Dir (demoEntriesFor g))"
    by (simp add: bf demoWorldFor_def demoTree_def)
  have i: "map_of (demoEntriesFor g) ''index.html'' \<noteq> None" by (simp add: demoEntriesFor_def)
  have sp: "shouldProcessBanner (runMode demoArgs) True" by (simp add: shouldProcessBanner_def demo_eval)
  have t: "templateAt demoArgs (snd (templateOf demoEnv demoArgs cfg fmt)) = Some demoTemplate"
    by (simp add: tr demo_eval)
  have e: "ensureTemplateOnCreate (snd (templateOf demoEnv demoArgs cfg fmt)) demoTemplate
             (demoEntriesFor g) True = Inr (demoEntriesFor g)"
    by (simp add: ensureTemplateOnCreate_def)
  have d: "ensureAssetsDir (demoEntriesFor g) = Inr (demoEntriesFor g)"
    by (simp add: ensureAssetsDir_def demoEntriesFor_def)
  have r: "readAssets (demoEntriesFor g) = Inr []"
    by (simp add: readAssets_def demoEntriesFor_def)
  have st: "readGenState demoEnv (demoEntriesFor g) =
      Some (genState [] (stableStringify demoEnv g) ''standard'' ''2026-01-01T00:00:00.000Z'')"
    by (simp add: readGenState_def demoEntriesFor_def demo_eval demoParse_def genState_def)
  have sr: "shouldRenderBanner (runMode demoArgs) True (readGenState demoEnv (demoEntriesFor g)) []
      (stableStringify demoEnv fmt)"
    using ne by (simp add: st demo_eval shouldRender_incremental genState_def)
  have rn: "renderFromMustacheFiles demoEnv dd (demoEntriesFor g) = Inr (demoEntriesFor g)" for dd
    by (simp add: renderFromMustacheFiles_def demoEntriesFor_def endsWith_def demo_eval)
  have wr: "writeGenState demoEnv (demoEntriesFor g)
      (genState [] (stableStringify demoEnv fmt) ''standard'' ''2026-01-01T00:00:00.000Z'') =
      Inr (demoEntriesFor fmt)"
    by (simp add: writeGenState_def demoEntriesFor_def demo_eval)
  have fo: "folderStep demoEnv demoArgs cfg (JStr ''c'') idx fmt True demoTemplate (demoEntriesFor g) =
      Inr (demoEntriesFor fmt, Some (Some (Finite 40960)))"
    unfolding folderStep_listed [OF e d r]
    using sr by (simp add: kb demo_eval rn tr wr)
  have pu: "putAt ?bf (Dir (demoEntriesFor fmt)) (demoTree (demoEntriesFor g)) = demoTree (demoEntriesFor fmt)"
    by (simp add: bf demoTree_def)
  have fi: "finishStep demoEnv demoArgs (JStr ''c'') fmt ?bf True (fs (demoWorldFor g k))
      (demoWorldFor g k) n (demoEntriesFor fmt, Some (Some (Finite 40960))) =
      Inr (demoWorldFor fmt (Suc k), n\<lparr>processed := processed n + 1, updated := updated n + 1\<rparr>)"
    by (simp add: finishStep_def pu lm wh demo_eval zipStep_def demo_zipFor checkZipSize_def
        falsyNum_def demoWorldFor_def replicate_append_same)
  show ?thesis
    unfolding processFormat_existing [OF s l i sp] t
    by (simp add: fo fi)
qed

lemma dup_loop1:
  "loopFormats demoEnv demoArgs dupCfg (JStr ''c'') demoRoot 0 [exampleFmt, dupFmt] (emptyWorld, noCounts) =
     (None, demoWorldFor dupFmt 2, noCounts\<lparr>processed := 2, created := 1, updated := 1\<rparr>)"
proof -
  have 1: "processFormat demoEnv demoArgs dupCfg (JStr ''c'') demoRoot 0 exampleFmt (emptyWorld, noCounts) =
      Inr (demoWorldFor exampleFmt 1, noCounts\<lparr>processed := 1, created := 1\<rparr>)"
    using demo_step_create [of dupCfg 0 noCounts]
    by (simp add: dupCfg_fields demoWorld1_for noCounts_def)
  have 2: "processFormat demoEnv demoArgs dupCfg (JStr ''c'') demoRoot (Suc 0) dupFmt
      (demoWorldFor exampleFmt 1, noCounts\<lparr>processed := 1, created := 1\<rparr>) =
      Inr (demoWorldFor dupFmt 2, noCounts\<lparr>processed := 2, created := 1, updated := 1\<rparr>)"
    using demo_step_update [of dupCfg "Suc 0" dupFmt exampleFmt 1 "noCounts\<lparr>processed := 1, created := 1\<rparr>"]
    by (simp add: dup_survives dup_artifactFolder dup_conversions dupFmt_fields dupCfg_fields dup_sig
        noCounts_def eval_nat_numeral)
  show ?thesis using 1 2 by simp
qed

lemma dup_loop2:
  "loopFormats demoEnv demoArgs dupCfg (JStr ''c'') demoRoot 0 [exampleFmt, dupFmt]
     (demoWorldFor dupFmt 2, noCounts) =
     (None, demoWorldFor dupFmt 4, noCounts\<lparr>processed := 2, updated := 2\<rparr>)"
proof -
  have 1: "processFormat demoEnv demoArgs dupCfg (JStr ''c'') demoRoot 0 exampleFmt
      (demoWorldFor dupFmt 2, noCounts) =
      Inr (demoWorldFor exampleFmt 3, noCounts\<lparr>processed := 1, updated := 1\<rparr>)"
    using demo_step_update [of dupCfg 0 exampleFmt dupFmt 2 noCounts] dup_sig
    by (simp add: demo_eval dup_conversions noCounts_def eval_nat_numeral)
  have 2: "processFormat demoEnv demoArgs dupCfg (JStr ''c'') demoRoot (Suc 0) dupFmt
      (demoWorldFor exampleFmt 3, noCounts\<lparr>processed := 1, updated := 1\<rparr>) =
      Inr (demoWorldFor dupFmt 4, noCounts\<lparr>processed := 2, updated := 2\<rparr>)"
    using demo_step_update [of dupCfg "Suc 0" dupFmt exampleFmt 3 "noCounts\<lparr>processed := 1, updated := 1\<rparr>"]
    by (simp add: dup_survives dup_artifactFolder dup_conversions dupFmt_fields dupCfg_fields dup_sig
        noCounts_def eval_nat_numeral)
  show ?thesis using 1 2 by simp
qed

subsection \<open>Idempotence\<close>

lemma demoCfg_fields:
  "demoCfg \<noteq> JNull"
  "readFormatsFromCfg demoCfg = [exampleFmt]"
  "campaignOf demoArgs demoCfg = JStr ''c''"
  "getp demoCfg ''brand'' = None"
  "runRoot demoArgs demoCfg = demoRoot"
  "runRoot demoArgs dupCfg = demoRoot"
  by (simp_all add: demoCfg_def dupCfg_def readFormatsFromCfg_def campaignOf_def demoArgs_def runRoot_def
      outRootOf_def path_resolve_def path_join_def normStep_def demoRoot_def)

text \<open>
  C2, as stated, fails. Two formats of one configuration that have the same size and
  language resolve to the same folder, which holds one state file. The first run in
  incremental mode creates the artifact for the first format and renders it again for the
  second, whose fingerprint it leaves in the state file. The second run, with the same
  configuration and the same (empty) assets directory, finds for each format the
  fingerprint of the other one and renders both: two formats are counted as updated.
\<close>

theorem incremental_rerun_counterexample:
  "runMode demoArgs = Incremental
   \<and> survivors demoEnv demoArgs dupCfg 0 (readFormatsFromCfg dupCfg) = [exampleFmt, dupFmt]
   \<and> artifactFolder demoEnv (runRoot demoArgs dupCfg) exampleFmt =
       artifactFolder demoEnv (runRoot demoArgs dupCfg) dupFmt
   \<and> generateFromFormatsJson demoEnv demoArgs dupCfg emptyWorld =
       (None, demoWorldFor dupFmt 2, noCounts\<lparr>processed := 2, created := 1, updated := 1\<rparr>)
   \<and> generateFromFormatsJson demoEnv demoArgs dupCfg (demoWorldFor dupFmt 2) =
       (None, demoWorldFor dupFmt 4, noCounts\<lparr>processed := 2, updated := 2\<rparr>)
   \<and> lookup (fs (demoWorldFor dupFmt 4)) [''work'', ''src'', ''c'', ''en'', ''300x250'', ''assets''] =
       Some (Dir [])
   \<and> lookup (fs (demoWorldFor dupFmt 2)) [''work'', ''src'', ''c'', ''en'', ''300x250'', ''assets''] =
       Some (Dir [])"
proof -
  have 1: "survivors demoEnv demoArgs dupCfg 0 (readFormatsFromCfg dupCfg) = [exampleFmt, dupFmt]"
    by (simp add: dupCfg_fields demo_eval dup_survives)
  have 2: "artifactFolder demoEnv (runRoot demoArgs dupCfg) exampleFmt =
       artifactFolder demoEnv (runRoot demoArgs dupCfg) dupFmt"
    by (simp add: demoCfg_fields demo_eval dup_artifactFolder)
  have 3: "generateFromFormatsJson demoEnv demoArgs dupCfg emptyWorld =
       (None, demoWorldFor dupFmt 2, noCounts\<lparr>processed := 2, created := 1, updated := 1\<rparr>)"
    by (simp add: generateFromFormatsJson_def dupCfg_fields dup_loop1 del: loopFormats.simps)
  have 4: "generateFromFormatsJson demoEnv demoArgs dupCfg (demoWorldFor dupFmt 2) =
       (None, demoWorldFor dupFmt 4, noCounts\<lparr>processed := 2, updated := 2\<rparr>)"
    by (simp add: generateFromFormatsJson_def dupCfg_fields dup_loop2 del: loopFormats.simps)
  have 5: "lookup (fs (demoWorldFor dupFmt k)) [''work'', ''src'', ''c'', ''en'', ''300x250'', ''assets''] =
       Some (Dir [])" for k
    by (simp add: demoWorldFor_def demoTree_def demoEntriesFor_def)
  show ?thesis using 1 2 3 4 5 by (simp add: demo_eval)
qed

text \<open>
  C2, amended. Let a run in incremental mode complete, starting from a tree in which the
  folder of every surviving format is missing or has distinct entry names and no dynamic
  source directly in its assets directory; let the folders of the surviving formats be
  separate (no two equal, none below another), let every one of them hold an
  \<^verbatim>\<open>index.html\<close> after the run, and let a state record that is written be read back as
  it was. Then a second run in incremental mode over the same configuration, on the tree
  the first run left and at any later time, renders nothing: it returns the state
  unchanged, every surviving format counted as skipped, every other format as filtered
  out, and nothing as processed, created or updated.
\<close>

theorem incremental_idempotent:
  assumes "runMode A = Incremental"
    and "\<forall>af sig tt ts. readJson_parse E (writeJson_text E (genState af sig tt ts)) =
           Some (genState af sig tt ts)"
    and "generateFromFormatsJson E A cfg w0 = (None, w1, n1)"
    and "separate (map (artifactFolder E (runRoot A cfg)) (survivors E A cfg 0 (readFormatsFromCfg cfg)))"
    and "list_all (\<lambda>fmt. tidy (lookup (fs w0) (artifactFolder E (runRoot A cfg) fmt)))
           (survivors E A cfg 0 (readFormatsFromCfg cfg))"
    and "list_all (\<lambda>fmt. pathExists (fs w1) (artifactFolder E (runRoot A cfg) fmt @ [''index.html'']))
           (survivors E A cfg 0 (readFormatsFromCfg cfg))"
  shows "generateFromFormatsJson E (A\<lparr>clock := k\<rparr>) cfg w1 =
     (None, w1,
      noCounts\<lparr>skippedCount := length (survivors E A cfg 0 (readFormatsFromCfg cfg)),
                filteredOut := length (readFormatsFromCfg cfg)
                               - length (survivors E A cfg 0 (readFormatsFromCfg cfg))\<rparr>)"
proof -
  let ?fmts = "readFormatsFromCfg cfg"
  let ?A = "A\<lparr>clock := k\<rparr>"
  from assms(3) obtain c where c: "campaignOf A cfg = JStr c" and n: "cfg \<noteq> JNull" "?fmts \<noteq> []"
    and l: "loopFormats E A cfg (JStr c) (outRootOf A c) 0 ?fmts (w0, noCounts) = (None, w1, n1)"
    by (auto simp: generateFromFormatsJson_def split: if_splits json.splits)
  have r: "runRoot A cfg = outRootOf A c" using c by (simp add: runRoot_def)
  have rt: "readJson_parse E (writeJson_text E (genState af sig tt ts)) = Some (genState af sig tt ts)"
    for af sig tt ts using assms(2) by blast
  have se: "list_all (\<lambda>f. \<exists>es. lookup (fs w1) (artifactFolder E (outRootOf A c) f) = Some (Dir es)
               \<and> settled E f es) (survivors E A cfg 0 ?fmts)"
    and pa: "passes E A cfg 0 ?fmts"
    using loop_settles [OF assms(1) rt l assms(4) [unfolded r] assms(5) [unfolded r]] by blast+
  have ix: "list_all (\<lambda>f. \<exists>es. lookup (fs w1) (artifactFolder E (outRootOf A c) f) = Some (Dir es)
               \<and> map_of es ''index.html'' \<noteq> None \<and> settled E f es) (survivors E ?A cfg 0 ?fmts)"
    unfolding survivors_clock list_all_iff
  proof
    fix f assume f: "f \<in> set (survivors E A cfg 0 ?fmts)"
    then obtain es where es: "lookup (fs w1) (artifactFolder E (outRootOf A c) f) = Some (Dir es)"
      "settled E f es" using se by (auto simp: list_all_iff)
    have "pathExists (fs w1) (artifactFolder E (outRootOf A c) f @ [''index.html''])"
      using assms(6) f by (simp add: list_all_iff r)
    then have "map_of es ''index.html'' \<noteq> None"
      using es(1) by (auto simp: pathExists_def lookup_append split: option.splits)
    then show "\<exists>es. lookup (fs w1) (artifactFolder E (outRootOf A c) f) = Some (Dir es)
               \<and> map_of es ''index.html'' \<noteq> None \<and> settled E f es"
      using es by blast
  qed
  have inc: "runMode ?A = Incremental" using assms(1) by simp
  have pa': "passes E ?A cfg 0 ?fmts" using pa by (simp add: passes_clock)
  have "loopFormats E ?A cfg (JStr c) (outRootOf A c) 0 ?fmts (w1, noCounts) =
      (None, w1, noCounts\<lparr>skippedCount := skippedCount noCounts + length (survivors E ?A cfg 0 ?fmts),
                   filteredOut := filteredOut noCounts
                     + (length ?fmts - length (survivors E ?A cfg 0 ?fmts))\<rparr>)"
    by (rule loop_skips [OF inc pa' ix])
  then show ?thesis
    using c n by (simp add: generateFromFormatsJson_def run_clock survivors_clock noCounts_def)
qed

theorem incremental_idempotent_witness:
  "runMode demoArgs = Incremental
   \<and> (\<forall>af sig tt ts. readJson_parse demoEnv (writeJson_text demoEnv (genState af sig tt ts)) =
           Some (genState af sig tt ts))
   \<and> generateFromFormatsJson demoEnv demoArgs demoCfg emptyWorld =
       (None, demoWorld1, noCounts\<lparr>processed := 1, created := 1\<rparr>)
   \<and> survivors demoEnv demoArgs demoCfg 0 (readFormatsFromCfg demoCfg) = [exampleFmt]
   \<and> separate (map (artifactFolder demoEnv (runRoot demoArgs demoCfg)) [exampleFmt])
   \<and> tidy (lookup (fs emptyWorld) (artifactFolder demoEnv (runRoot demoArgs demoCfg) exampleFmt))
   \<and> pathExists (fs demoWorld1)
       (artifactFolder demoEnv (runRoot demoArgs demoCfg) exampleFmt @ [''index.html''])
   \<and> generateFromFormatsJson demoEnv (demoArgs\<lparr>clock := (\<lambda>i. ''2026-02-02T00:00:00.000Z'')\<rparr>)
        demoCfg demoWorld1 = (None, demoWorld1, noCounts\<lparr>skippedCount := 1\<rparr>)"
proof -
  have 1: "runMode demoArgs = Incremental" by (simp add: demo_eval)
  have 2: "\<forall>af sig tt ts. readJson_parse demoEnv (writeJson_text demoEnv (genState af sig tt ts)) =
           Some (genState af sig tt ts)"
    by (simp add: demo_eval demoParse_def genState_def)
  have 3: "generateFromFormatsJson demoEnv demoArgs demoCfg emptyWorld =
       (None, demoWorld1, noCounts\<lparr>processed := 1, created := 1\<rparr>)"
    using demo_step_create [of demoCfg 0 noCounts]
    by (simp add: generateFromFormatsJson_def demoCfg_fields demo_eval noCounts_def)
  have 4: "survivors demoEnv demoArgs demoCfg 0 (readFormatsFromCfg demoCfg) = [exampleFmt]"
    by (simp add: demoCfg_fields demo_eval)
  have 5: "separate (map (artifactFolder demoEnv (runRoot demoArgs demoCfg))
             (survivors demoEnv demoArgs demoCfg 0 (readFormatsFromCfg demoCfg)))"
    by (simp add: 4)
  have 6: "list_all (\<lambda>fmt. tidy (lookup (fs emptyWorld) (artifactFolder demoEnv (runRoot demoArgs demoCfg) fmt)))
             (survivors demoEnv demoArgs demoCfg 0 (readFormatsFromCfg demoCfg))"
    by (simp add: 4 demoCfg_fields demo_eval emptyWorld_def tidy_def)
  have 7: "list_all (\<lambda>fmt. pathExists (fs demoWorld1)
             (artifactFolder demoEnv (runRoot demoArgs demoCfg) fmt @ [''index.html'']))
             (survivors demoEnv demoArgs demoCfg 0 (readFormatsFromCfg demoCfg))"
    by (simp add: 4 demoCfg_fields demo_eval)
  have 8: "generateFromFormatsJson demoEnv (demoArgs\<lparr>clock := (\<lambda>i. ''2026-02-02T00:00:00.000Z'')\<rparr>)
        demoCfg demoWorld1 = (None, demoWorld1, noCounts\<lparr>skippedCount := 1\<rparr>)"
    using incremental_idempotent [OF 1 2 3 5 6 7, of "\<lambda>i. ''2026-02-02T00:00:00.000Z''"]
    unfolding 4 by (simp add: demoCfg_fields noCounts_def)
  show ?thesis using 1 2 3 4 5 6 7 8 by simp
qed

end
